theory Spec2Isabelle
  imports Complex_Main
begin

section \<open>The sync-free Adam optimizer (torch\_xla/amp/syncfree/adam.py)\<close>

text \<open>
  The embedding follows the Python source function by function. Tensor elements are
  real numbers: the floating-point rounding, infinities and NaN of the tensor library are
  not part of the model (in particular an elementwise division by zero and the square
  root of a negative element, which give inf or nan in torch, are outside what the
  theorems below speak about). Tensors that meet in one elementwise operation have one
  shape in every state the optimizer builds itself (\<open>zeros_like(p)\<close>); torch's
  broadcasting between different shapes is not modelled.
\<close>

subsection \<open>Tensors\<close>

record tensor =
  shape :: "nat list"
  is_sparse :: bool
  elems :: "real list"

text \<open>\<open>bool(t)\<close> of a one-element tensor: its element is not zero.\<close>

definition tensor_bool :: "tensor \<Rightarrow> bool" where
  "tensor_bool t = list_ex (\<lambda>x. x \<noteq> 0) (elems t)"

definition zeros_like :: "tensor \<Rightarrow> tensor" where
  "zeros_like t = t\<lparr>elems := map (\<lambda>_. 0) (elems t)\<rparr>"

definition ones_like :: "tensor \<Rightarrow> tensor" where
  "ones_like t = t\<lparr>elems := map (\<lambda>_. 1) (elems t)\<rparr>"

text \<open>\<open>t.mul(c)\<close>, \<open>t.add(other, alpha=a)\<close>, \<open>t.addcmul(t1, t2, value=c)\<close>,
  \<open>t.addcdiv(t1, t2, value=c)\<close>, \<open>torch.maximum\<close>, \<open>t.sqrt()\<close>, \<open>t / c\<close>, \<open>t.add(c)\<close>
  and \<open>torch.where\<close> with a scalar condition. The in-place variants of the source
  (\<open>mul_\<close>, \<open>add_\<close>, ...) compute the same tensor and store it back into the object.\<close>

definition mul :: "tensor \<Rightarrow> real \<Rightarrow> tensor" where
  "mul t c = t\<lparr>elems := map (\<lambda>x. x * c) (elems t)\<rparr>"

definition add :: "tensor \<Rightarrow> tensor \<Rightarrow> real \<Rightarrow> tensor" where
  "add t other alpha = t\<lparr>elems := map2 (\<lambda>x y. x + alpha * y) (elems t) (elems other)\<rparr>"

definition addcmul :: "tensor \<Rightarrow> tensor \<Rightarrow> tensor \<Rightarrow> real \<Rightarrow> tensor" where
  "addcmul t t1 t2 c =
     t\<lparr>elems := map2 (\<lambda>x (y, z). x + c * (y * z)) (elems t) (zip (elems t1) (elems t2))\<rparr>"

definition addcdiv :: "tensor \<Rightarrow> tensor \<Rightarrow> tensor \<Rightarrow> real \<Rightarrow> tensor" where
  "addcdiv t t1 t2 c =
     t\<lparr>elems := map2 (\<lambda>x (y, z). x + c * (y / z)) (elems t) (zip (elems t1) (elems t2))\<rparr>"

definition maximum :: "tensor \<Rightarrow> tensor \<Rightarrow> tensor" where
  "maximum a b = a\<lparr>elems := map2 max (elems a) (elems b)\<rparr>"

definition tsqrt :: "tensor \<Rightarrow> tensor" where
  "tsqrt t = t\<lparr>elems := map sqrt (elems t)\<rparr>"

definition div_scalar :: "tensor \<Rightarrow> real \<Rightarrow> tensor" where
  "div_scalar t c = t\<lparr>elems := map (\<lambda>x. x / c) (elems t)\<rparr>"

definition add_scalar :: "tensor \<Rightarrow> real \<Rightarrow> tensor" where
  "add_scalar t c = t\<lparr>elems := map (\<lambda>x. x + c) (elems t)\<rparr>"

definition tensor_where :: "bool \<Rightarrow> tensor \<Rightarrow> tensor \<Rightarrow> tensor" where
  "tensor_where c a b = (if c then a else b)"

subsection \<open>Errors, the store and the optimizer\<close>

datatype error =
    ValueError string
  | RuntimeError string
  | AttributeError string
  | KeyError string
  | IndexError string
  | ZeroDivisionError string

type_synonym pid = nat

text \<open>
  The tensor objects the step mutates in place. \<open>Param p\<close> is the parameter \<open>p\<close>
  itself; \<open>ExpAvg p\<close>, \<open>ExpAvgSq p\<close> and \<open>MaxExpAvgSq p\<close> are the objects held under
  the keys \<open>'exp_avg'\<close>, \<open>'exp_avg_sq'\<close> and \<open>'max_exp_avg_sq'\<close> of \<open>self.state[p]\<close>:
  each is assigned once, when the state of \<open>p\<close> is created, and afterwards only mutated
  in place, so the key names the object. The lists handed to \<open>adam_step_py\<close> hold these
  references, as the Python lists hold the objects.
\<close>

datatype ref = Param pid | ExpAvg pid | ExpAvgSq pid | MaxExpAvgSq pid

text \<open>\<open>self.state[p]\<close>: \<open>None\<close> is the empty dict; a created state has its step count,
  its two moments (in the store) and, when it was created under amsgrad, the key
  \<open>'max_exp_avg_sq'\<close>.\<close>

record adam_state =
  step_count :: nat
  has_max_exp_avg_sq :: bool

record param_group =
  g_params :: "pid list"
  g_lr :: real
  g_betas :: "real \<times> real"
  g_eps :: real
  g_weight_decay :: real
  g_amsgrad :: bool

record optimizer =
  heap :: "ref \<Rightarrow> tensor"
  grad_of :: "pid \<Rightarrow> tensor option"
  param_groups :: "param_group list"
  state :: "pid \<Rightarrow> adam_state option"

text \<open>What a call leaves behind: the exception raised and the store at that moment, or
  the value returned and the store.\<close>

datatype 'a result = Raise error optimizer | Return 'a optimizer

fun world_of :: "'a result \<Rightarrow> optimizer" where
  "world_of (Raise e w) = w"
| "world_of (Return x w) = w"

fun raised :: "'a result \<Rightarrow> error option" where
  "raised (Raise e w) = Some e"
| "raised (Return x w) = None"

text \<open>A \<open>for\<close> loop whose body may raise: the first exception ends it.\<close>

fun for_each :: "('a \<Rightarrow> 'b \<Rightarrow> optimizer \<Rightarrow> 'b result) \<Rightarrow> 'a list \<Rightarrow> 'b \<Rightarrow> optimizer \<Rightarrow> 'b result" where
  "for_each body [] acc w = Return acc w"
| "for_each body (x # xs) acc w =
     (case body x acc w of
        Raise e w' \<Rightarrow> Raise e w'
      | Return acc' w' \<Rightarrow> for_each body xs acc' w')"

text \<open>\<open>xs[i]\<close> of a Python list, for an index that is not negative.\<close>

definition index :: "'a list \<Rightarrow> nat \<Rightarrow> error + 'a" where
  "index xs i = (if i < length xs then Inr (xs ! i) else Inl (IndexError ''list index out of range''))"

subsection \<open>Adam.\_\_init\_\_\<close>

record defaults =
  d_lr :: real
  d_betas :: "real \<times> real"
  d_eps :: real
  d_weight_decay :: real
  d_amsgrad :: bool

text \<open>The constructor of the base class \<open>torch.optim.Optimizer\<close> is library code; it is
  the parameter \<open>super_init\<close>.\<close>

definition Adam_init ::
  "('p \<Rightarrow> defaults \<Rightarrow> error + optimizer) \<Rightarrow> 'p \<Rightarrow> real \<Rightarrow> real \<times> real \<Rightarrow> real \<Rightarrow> real \<Rightarrow> bool
     \<Rightarrow> error + optimizer" where
  "Adam_init super_init params lr betas eps weight_decay amsgrad =
     (if \<not> 0 \<le> lr then Inl (ValueError ''Invalid learning rate'')
      else if \<not> 0 \<le> eps then Inl (ValueError ''Invalid epsilon value'')
      else if \<not> (0 \<le> fst betas \<and> fst betas < 1) then
        Inl (ValueError ''Invalid beta parameter at index 0'')
      else if \<not> (0 \<le> snd betas \<and> snd betas < 1) then
        Inl (ValueError ''Invalid beta parameter at index 1'')
      else if \<not> 0 \<le> weight_decay then Inl (ValueError ''Invalid weight_decay value'')
      else super_init params
             \<lparr>d_lr = lr, d_betas = betas, d_eps = eps,
              d_weight_decay = weight_decay, d_amsgrad = amsgrad\<rparr>)"

subsection \<open>Adam.adam\_step\_py\<close>

text \<open>The body of the loop over \<open>enumerate(params)\<close>, lines 178 to 216. The call of the
  debugger at line 177 stops for the user's terminal and is not modelled.\<close>

definition adam_step_body ::
  "tensor list \<Rightarrow> ref list \<Rightarrow> ref list \<Rightarrow> ref list \<Rightarrow> nat list \<Rightarrow> bool \<Rightarrow> real \<Rightarrow> real \<Rightarrow>
   real \<Rightarrow> real \<Rightarrow> real \<Rightarrow> tensor \<Rightarrow> nat \<times> ref \<Rightarrow> unit \<Rightarrow> optimizer \<Rightarrow> unit result" where
  "adam_step_body grads exp_avgs exp_avg_sqs max_exp_avg_sqs state_steps amsgrad beta1 beta2
       lr weight_decay eps found_inf ip u w =
     (let i = fst ip; param = snd ip in
      (case index grads i of Inl e \<Rightarrow> Raise e w | Inr grad0 \<Rightarrow>
      (case index exp_avgs i of Inl e \<Rightarrow> Raise e w | Inr exp_avg \<Rightarrow>
      (case index exp_avg_sqs i of Inl e \<Rightarrow> Raise e w | Inr exp_avg_sq \<Rightarrow>
      (case index state_steps i of Inl e \<Rightarrow> Raise e w | Inr step \<Rightarrow>
      (let bias_correction1 = 1 - beta1 ^ step;
           bias_correction2 = 1 - beta2 ^ step;
           grad = (if weight_decay \<noteq> 0
                   then tensor_where (tensor_bool found_inf) grad0
                          (add grad0 (heap w param) weight_decay)
                   else grad0);
           w1 = (if \<not> tensor_bool found_inf
                 then w\<lparr>heap := (heap w)(exp_avg :=
                          add (mul (heap w exp_avg) beta1) grad (1 - beta1))\<rparr>
                 else w);
           w2 = (if \<not> tensor_bool found_inf
                 then w1\<lparr>heap := (heap w1)(exp_avg_sq :=
                          addcmul (mul (heap w1 exp_avg_sq) beta2) grad grad (1 - beta2))\<rparr>
                 else w1)
       in
       (case (if amsgrad then index max_exp_avg_sqs i else Inr exp_avg_sq) of
          Inl e \<Rightarrow> Raise e w2
        | Inr second \<Rightarrow>
       (let w3 = (if amsgrad
                  then w2\<lparr>heap := (heap w2)(second :=
                           maximum (heap w2 second) (heap w2 exp_avg_sq))\<rparr>
                  else w2)
        in
        if step \<noteq> 0 \<and> bias_correction2 < 0
        then Raise (ValueError ''math domain error'') w3
        else
         (let denom = (if step \<noteq> 0
                       then add_scalar (div_scalar (tsqrt (heap w3 second))
                                          (sqrt bias_correction2)) eps
                       else ones_like (heap w3 second))
          in
          if step \<noteq> 0 \<and> bias_correction1 = 0
          then Raise (ZeroDivisionError ''float division by zero'') w3
          else
           (let step_size = (if step \<noteq> 0 then lr / bias_correction1 else 0)
            in
            if \<not> tensor_bool found_inf
            then Return () (w3\<lparr>heap := (heap w3)(param :=
                              addcdiv (heap w3 param) (heap w3 exp_avg) denom (- step_size))\<rparr>)
            else Return () (w3\<lparr>heap := (heap w3)(param :=
                              add (heap w3 param) (zeros_like (heap w3 exp_avg)) 1)\<rparr>)))))))))))"

definition adam_step_py ::
  "ref list \<Rightarrow> tensor list \<Rightarrow> ref list \<Rightarrow> ref list \<Rightarrow> ref list \<Rightarrow> nat list \<Rightarrow> bool \<Rightarrow> real \<Rightarrow> real \<Rightarrow>
   real \<Rightarrow> real \<Rightarrow> real \<Rightarrow> tensor \<Rightarrow> optimizer \<Rightarrow> unit result" where
  "adam_step_py params grads exp_avgs exp_avg_sqs max_exp_avg_sqs state_steps amsgrad beta1 beta2
       lr weight_decay eps found_inf w =
     for_each
       (adam_step_body grads exp_avgs exp_avg_sqs max_exp_avg_sqs state_steps amsgrad beta1 beta2
          lr weight_decay eps found_inf)
       (zip [0..<length params] params) () w"

subsection \<open>Adam.step\<close>

record collected =
  c_params_with_grad :: "ref list"
  c_grads :: "tensor list"
  c_exp_avgs :: "ref list"
  c_exp_avg_sqs :: "ref list"
  c_max_exp_avg_sqs :: "ref list"
  c_state_steps :: "nat list"

definition no_lists :: collected where
  "no_lists = \<lparr>c_params_with_grad = [], c_grads = [], c_exp_avgs = [], c_exp_avg_sqs = [],
               c_max_exp_avg_sqs = [], c_state_steps = []\<rparr>"

text \<open>Lazy state initialization, lines 95 to 104.\<close>

definition new_state :: "param_group \<Rightarrow> adam_state" where
  "new_state grp = \<lparr>step_count = 0, has_max_exp_avg_sq = g_amsgrad grp\<rparr>"

definition init_state :: "param_group \<Rightarrow> pid \<Rightarrow> optimizer \<Rightarrow> optimizer" where
  "init_state grp p w =
     (let h1 = (heap w)(ExpAvg p := zeros_like (heap w (Param p)));
          h2 = h1(ExpAvgSq p := zeros_like (heap w (Param p)));
          h3 = (if g_amsgrad grp then h2(MaxExpAvgSq p := zeros_like (heap w (Param p))) else h2)
      in w\<lparr>heap := h3, state := (state w)(p := Some (new_state grp))\<rparr>)"

text \<open>The body of the loop over \<open>group['params']\<close>, lines 83 to 116. The messages of the
  errors are written without the values Python formats into them.\<close>

definition visit_param :: "param_group \<Rightarrow> tensor \<Rightarrow> pid \<Rightarrow> collected \<Rightarrow> optimizer \<Rightarrow> collected result" where
  "visit_param grp found_inf p c w =
     (case grad_of w p of
        None \<Rightarrow> Return c w
      | Some g \<Rightarrow>
         (if is_sparse g
          then Raise (RuntimeError ''Adam does not support sparse gradients, please consider SparseAdam instead'') w
          else
           (let w1 = (case state w p of None \<Rightarrow> init_state grp p w | Some s0 \<Rightarrow> w);
                s = (case state w p of None \<Rightarrow> new_state grp | Some s0 \<Rightarrow> s0)
            in
            if g_amsgrad grp \<and> \<not> has_max_exp_avg_sq s
            then Raise (KeyError ''max_exp_avg_sq'') w1
            else
             (let s' = (if \<not> tensor_bool found_inf then s\<lparr>step_count := step_count s + 1\<rparr> else s);
                  w2 = w1\<lparr>state := (state w1)(p := Some s')\<rparr>
              in Return
                   \<lparr>c_params_with_grad = c_params_with_grad c @ [Param p],
                    c_grads = c_grads c @ [g],
                    c_exp_avgs = c_exp_avgs c @ [ExpAvg p],
                    c_exp_avg_sqs = c_exp_avg_sqs c @ [ExpAvgSq p],
                    c_max_exp_avg_sqs =
                      (if g_amsgrad grp then c_max_exp_avg_sqs c @ [MaxExpAvgSq p]
                       else c_max_exp_avg_sqs c),
                    c_state_steps = c_state_steps c @ [step_count s']\<rparr>
                   w2))))"

text \<open>The body of the loop over \<open>self.param_groups\<close>, lines 74 to 143.\<close>

definition step_group :: "tensor \<Rightarrow> param_group \<Rightarrow> unit \<Rightarrow> optimizer \<Rightarrow> unit result" where
  "step_group found_inf grp u w =
     (case for_each (visit_param grp found_inf) (g_params grp) no_lists w of
        Raise e w' \<Rightarrow> Raise e w'
      | Return c w' \<Rightarrow>
          adam_step_py (c_params_with_grad c) (c_grads c) (c_exp_avgs c) (c_exp_avg_sqs c)
            (c_max_exp_avg_sqs c) (c_state_steps c) (g_amsgrad grp) (fst (g_betas grp))
            (snd (g_betas grp)) (g_lr grp) (g_weight_decay grp) (g_eps grp) found_inf w')"

text \<open>\<open>step(closure, found_inf)\<close>. The closure is the caller's code: it returns the loss
  or raises, and leaves a store of its own making. \<open>found_inf = None\<close> is the default
  of the argument, and \<open>None\<close> has no attribute \<open>shape\<close>.\<close>

definition run_closure :: "(optimizer \<Rightarrow> real result) option \<Rightarrow> optimizer \<Rightarrow> real option result" where
  "run_closure closure w =
     (case closure of
        None \<Rightarrow> Return None w
      | Some cl \<Rightarrow> (case cl w of Raise e w' \<Rightarrow> Raise e w' | Return l w' \<Rightarrow> Return (Some l) w'))"

definition Adam_step ::
  "(optimizer \<Rightarrow> real result) option \<Rightarrow> tensor option \<Rightarrow> optimizer \<Rightarrow> real option result" where
  "Adam_step closure found_inf w =
     (case found_inf of
        None \<Rightarrow> Raise (AttributeError ''NoneType object has no attribute shape'') w
      | Some fi \<Rightarrow>
         (if length (shape fi) \<noteq> 0
          then Raise (ValueError ''The found_inf tensor has to be scalar type'') w
          else
           (case run_closure closure w of
              Raise e w1 \<Rightarrow> Raise e w1
            | Return loss w1 \<Rightarrow>
               (case for_each (step_group fi) (param_groups w1) () w1 of
                  Raise e w2 \<Rightarrow> Raise e w2
                | Return u w2 \<Rightarrow> Return loss w2))))"

subsection \<open>Reading the state of a parameter; a sequence of calls\<close>

text \<open>The state of a parameter is created on its first visit, with step count 0 and
  moments \<open>zeros_like(p)\<close>. Until then the step count reads as 0 and the moments read
  as zero tensors.\<close>

definition step_of :: "optimizer \<Rightarrow> pid \<Rightarrow> nat" where
  "step_of w p = (case state w p of None \<Rightarrow> 0 | Some s \<Rightarrow> step_count s)"

definition exp_avg_of :: "optimizer \<Rightarrow> pid \<Rightarrow> tensor" where
  "exp_avg_of w p =
     (case state w p of None \<Rightarrow> zeros_like (heap w (Param p)) | Some s \<Rightarrow> heap w (ExpAvg p))"

definition exp_avg_sq_of :: "optimizer \<Rightarrow> pid \<Rightarrow> tensor" where
  "exp_avg_sq_of w p =
     (case state w p of None \<Rightarrow> zeros_like (heap w (Param p)) | Some s \<Rightarrow> heap w (ExpAvgSq p))"

definition max_exp_avg_sq_of :: "optimizer \<Rightarrow> pid \<Rightarrow> tensor" where
  "max_exp_avg_sq_of w p =
     (case state w p of None \<Rightarrow> zeros_like (heap w (Param p)) | Some s \<Rightarrow> heap w (MaxExpAvgSq p))"

text \<open>The number of elements of a tensor, and the states whose first moment has as many
  elements as its parameter (as \<open>zeros_like(p)\<close> makes it).\<close>

definition numel :: "tensor \<Rightarrow> nat" where
  "numel t = length (elems t)"

definition state_shaped :: "optimizer \<Rightarrow> bool" where
  "state_shaped w \<longleftrightarrow> (\<forall>p. state w p \<noteq> None \<longrightarrow> numel (heap w (ExpAvg p)) = numel (heap w (Param p)))"

text \<open>A training loop: before each call of \<open>step\<close> the backward pass has left the
  gradients \<open>g\<close>; the call gets the skip signal \<open>fi\<close> and no closure. The store the call
  leaves (returning or raising) is the store the next call starts from.\<close>

fun calls :: "((pid \<Rightarrow> tensor option) \<times> tensor) list \<Rightarrow> optimizer \<Rightarrow> optimizer" where
  "calls [] w = w"
| "calls (gf # rest) w =
     calls rest (world_of (Adam_step None (Some (snd gf)) (w\<lparr>grad_of := fst gf\<rparr>)))"

subsection \<open>Example stores\<close>

definition scalar :: "real \<Rightarrow> tensor" where
  "scalar x = \<lparr>shape = [], is_sparse = False, elems = [x]\<rparr>"

definition vec :: "real list \<Rightarrow> tensor" where
  "vec xs = \<lparr>shape = [length xs], is_sparse = False, elems = xs\<rparr>"

text \<open>The constructor of \<open>torch.optim.Optimizer\<close> for a flat list of parameters, as the
  library documents it: one group that carries the defaults, no state yet, and an empty
  list refused. It stands for \<open>super_init\<close> in the examples.\<close>

definition Optimizer_init ::
  "(ref \<Rightarrow> tensor) \<Rightarrow> (pid \<Rightarrow> tensor option) \<Rightarrow> pid list \<Rightarrow> defaults \<Rightarrow> error + optimizer" where
  "Optimizer_init h g ps d =
     (if ps = [] then Inl (ValueError ''optimizer got an empty parameter list'')
      else Inr \<lparr>heap = h, grad_of = g,
                param_groups = [\<lparr>g_params = ps, g_lr = d_lr d, g_betas = d_betas d, g_eps = d_eps d,
                                 g_weight_decay = d_weight_decay d, g_amsgrad = d_amsgrad d\<rparr>],
                state = (\<lambda>p. None)\<rparr>)"

text \<open>The end-to-end scenario of the specification: one parameter of value 1.0 with
  gradient 0.1, lr = 0.001, betas = (0.9, 0.999), eps = 1e-8, no weight decay, no amsgrad.\<close>

definition scenario :: optimizer where
  "scenario =
     \<lparr>heap = (\<lambda>r. vec [1]),
      grad_of = (\<lambda>p. if p = 0 then Some (vec [1 / 10]) else None),
      param_groups = [\<lparr>g_params = [0], g_lr = 1 / 1000, g_betas = (9 / 10, 999 / 1000),
                       g_eps = 1 / 100000000, g_weight_decay = 0, g_amsgrad = False\<rparr>],
      state = (\<lambda>p. None)\<rparr>"

subsection \<open>Relations between stores\<close>

text \<open>The lists the collecting loop has built for the parameters \<open>qs\<close>, in this order.\<close>

definition lists_for :: "bool \<Rightarrow> pid list \<Rightarrow> collected \<Rightarrow> bool" where
  "lists_for amsgrad qs c \<longleftrightarrow>
     c_params_with_grad c = map Param qs \<and> c_exp_avgs c = map ExpAvg qs \<and>
     c_exp_avg_sqs c = map ExpAvgSq qs \<and>
     c_max_exp_avg_sqs c = (if amsgrad then map MaxExpAvgSq qs else []) \<and>
     length (c_grads c) = length qs \<and> length (c_state_steps c) = length qs"

text \<open>Two stores with the same parameter values, moments and step counts; the stores a
  skipped update relates (only a running maximum may differ); and the stores a call
  with the skip signal set relates.\<close>

definition same_estimates :: "optimizer \<Rightarrow> optimizer \<Rightarrow> bool" where
  "same_estimates w w' \<longleftrightarrow>
     (\<forall>p. heap w' (Param p) = heap w (Param p) \<and> exp_avg_of w' p = exp_avg_of w p \<and>
          exp_avg_sq_of w' p = exp_avg_sq_of w p \<and> step_of w' p = step_of w p)"

definition skip_inv :: "optimizer \<Rightarrow> optimizer \<Rightarrow> bool" where
  "skip_inv w v \<longleftrightarrow> state v = state w \<and> (\<forall>x. (\<forall>q. x \<noteq> MaxExpAvgSq q) \<longrightarrow> heap v x = heap w x)"

definition frozen :: "optimizer \<Rightarrow> optimizer \<Rightarrow> bool" where
  "frozen w v \<longleftrightarrow> state_shaped v \<and> same_estimates w v"

text \<open>The scenario after a backward pass that has left no gradient on the parameter
  (a frozen parameter).\<close>

definition scenario_without_gradient :: optimizer where
  "scenario_without_gradient = scenario\<lparr>grad_of := (\<lambda>p. None)\<rparr>"

text \<open>All that the optimizer holds for one parameter: its state record and the four
  tensors.\<close>

definition own :: "pid \<Rightarrow> optimizer \<Rightarrow> adam_state option \<times> tensor \<times> tensor \<times> tensor \<times> tensor" where
  "own p w = (state w p, heap w (Param p), heap w (ExpAvg p), heap w (ExpAvgSq p),
              heap w (MaxExpAvgSq p))"

subsection \<open>The update rule as the specification words it\<close>

text \<open>For one element: the gradient with the weight decay folded in, the two moments,
  and the parameter after the update with step count \<open>t\<close>, first moment \<open>m\<close> and chosen
  second moment \<open>c\<close> (section 4.2, steps 1 to 6).\<close>

definition spec_grad :: "real \<Rightarrow> real \<Rightarrow> real \<Rightarrow> real" where
  "spec_grad wd g x = (if wd \<noteq> 0 then g + wd * x else g)"

definition spec_first_moment :: "real \<Rightarrow> real \<Rightarrow> real \<Rightarrow> real" where
  "spec_first_moment b1 m g = b1 * m + (1 - b1) * g"

definition spec_second_moment :: "real \<Rightarrow> real \<Rightarrow> real \<Rightarrow> real" where
  "spec_second_moment b2 v g = b2 * v + (1 - b2) * g\<^sup>2"

definition spec_parameter :: "real \<Rightarrow> real \<Rightarrow> real \<Rightarrow> real \<Rightarrow> nat \<Rightarrow> real \<Rightarrow> real \<Rightarrow> real \<Rightarrow> real" where
  "spec_parameter lr b1 b2 eps t x m c =
     x - (lr / (1 - b1 ^ t)) * m / (sqrt c / sqrt (1 - b2 ^ t) + eps)"

text \<open>The parameters \<open>ps\<close> whose state, where it exists, has the key \<open>'max_exp_avg_sq'\<close>
  when the group asks for amsgrad (line 110 raises a KeyError otherwise), and the
  parameters whose gradient, where there is one, is dense.\<close>

definition keys_present :: "param_group \<Rightarrow> pid list \<Rightarrow> optimizer \<Rightarrow> bool" where
  "keys_present grp ps w \<longleftrightarrow>
     (\<forall>p\<in>set ps. \<forall>s. g_amsgrad grp \<and> state w p = Some s \<longrightarrow> has_max_exp_avg_sq s)"

definition all_dense :: "pid list \<Rightarrow> optimizer \<Rightarrow> bool" where
  "all_dense ps w \<longleftrightarrow> (\<forall>p\<in>set ps. \<forall>g. grad_of w p = Some g \<longrightarrow> \<not> is_sparse g)"

text \<open>One group of two parameters: the first has a dense gradient, the second a sparse
  one.\<close>

definition sparse_scenario :: optimizer where
  "sparse_scenario =
     \<lparr>heap = (\<lambda>r. vec [1]),
      grad_of = (\<lambda>p. if p = 0 then Some (vec [1 / 10])
                      else if p = 1 then Some \<lparr>shape = [1], is_sparse = True, elems = [1 / 10]\<rparr>
                      else None),
      param_groups = [\<lparr>g_params = [0, 1], g_lr = 1 / 1000, g_betas = (9 / 10, 999 / 1000),
                       g_eps = 1 / 100000000, g_weight_decay = 0, g_amsgrad = False\<rparr>],
      state = (\<lambda>p. None)\<rparr>"


section \<open>The benchmark driver (hopper/test/scripts/launch\_benchmarks.py)\<close>

text \<open>
  A Python \<open>str\<close> is a sequence of Unicode code points, so a string is a list of
  natural numbers; \<open>lit\<close> reads an ASCII literal. The captured output of a run is the
  text after \<open>stdout.decode()\<close>. \<open>isspace\<close> holds of the code points Python counts as
  whitespace: those the class of non-whitespace characters of a pattern over \<open>str\<close>
  leaves out, and those \<open>strip()\<close> removes.
\<close>

type_synonym str = "nat list"

definition isspace :: "nat \<Rightarrow> bool" where
  "isspace c \<longleftrightarrow>
     c \<in> set [9, 10, 11, 12, 13, 28, 29, 30, 31, 32, 133, 160, 5760, 8192, 8193, 8194, 8195,
              8196, 8197, 8198, 8199, 8200, 8201, 8202, 8232, 8233, 8239, 8287, 12288]"

definition lit :: "string \<Rightarrow> str" where
  "lit s = map of_char s"

text \<open>One or more non-whitespace characters followed by the literal character \<open>c\<close>
  (a space or a newline, both whitespace): the longest run of characters that are not whitespace, which must not
  be empty, and then \<open>c\<close>. A shorter run cannot be followed by \<open>c\<close>, so backtracking
  finds nothing else. The result is the run and the text after \<open>c\<close>.\<close>

definition eat_token :: "nat \<Rightarrow> str \<Rightarrow> (str \<times> str) option" where
  "eat_token c s =
     (let t = takeWhile (\<lambda>x. \<not> isspace x) s; r = dropWhile (\<lambda>x. \<not> isspace x) s
      in if t \<noteq> [] \<and> r \<noteq> [] \<and> hd r = c then Some (t, tl r) else None)"

text \<open>The pattern of lines 38 and 41 matched at the start of \<open>s\<close>: the text
  \<open>Results:\<close> and a space, then five runs of non-whitespace characters, with a space
  after each of the first four and a newline after the fifth. The result is the matched
  text, \<open>match.group(0)\<close>.\<close>

definition match_here :: "str \<Rightarrow> str option" where
  "match_here s =
     (if take 9 s \<noteq> lit ''Results: '' then None
      else
       (case eat_token 32 (drop 9 s) of None \<Rightarrow> None | Some (t1, s1) \<Rightarrow>
       (case eat_token 32 s1 of None \<Rightarrow> None | Some (t2, s2) \<Rightarrow>
       (case eat_token 32 s2 of None \<Rightarrow> None | Some (t3, s3) \<Rightarrow>
       (case eat_token 32 s3 of None \<Rightarrow> None | Some (t4, s4) \<Rightarrow>
       (case eat_token 10 s4 of None \<Rightarrow> None | Some (t5, s5) \<Rightarrow>
          Some (lit ''Results: '' @ t1 @ [32] @ t2 @ [32] @ t3 @ [32] @ t4 @ [32] @ t5 @ [10])))))))"

text \<open>\<open>re.search\<close>: the match at the leftmost position that has one.\<close>

fun re_search :: "str \<Rightarrow> str option" where
  "re_search [] = match_here []"
| "re_search (c # s) =
     (case match_here (c # s) of Some m \<Rightarrow> Some m | None \<Rightarrow> re_search s)"

text \<open>\<open>s.split(" ")\<close> (every single separator splits, empty pieces are kept) and
  \<open>s.strip()\<close>.\<close>

fun split_on :: "nat \<Rightarrow> str \<Rightarrow> str list" where
  "split_on c [] = [[]]"
| "split_on c (x # xs) =
     (if x = c then [] # split_on c xs
      else (x # hd (split_on c xs)) # tl (split_on c xs))"

definition strip :: "str \<Rightarrow> str" where
  "strip s = rev (dropWhile isspace (rev (dropWhile isspace s)))"

text \<open>Lines 37 to 43, for one captured output.\<close>

definition latency_of :: "str \<Rightarrow> str" where
  "latency_of out =
     (case re_search out of
        None \<Rightarrow> lit ''N/A''
      | Some m \<Rightarrow> strip (last (split_on 32 m)))"

text \<open>A token of the pattern, and the line the pattern describes.\<close>

definition token :: "str \<Rightarrow> bool" where
  "token t \<longleftrightarrow> t \<noteq> [] \<and> list_all (\<lambda>x. \<not> isspace x) t"

definition results_line :: "str \<Rightarrow> str \<Rightarrow> str \<Rightarrow> str \<Rightarrow> str \<Rightarrow> str" where
  "results_line t1 t2 t3 t4 t5 =
     lit ''Results: '' @ t1 @ [32] @ t2 @ [32] @ t3 @ [32] @ t4 @ [32] @ t5 @ [10]"

text \<open>The sweep of lines 14 to 45. \<open>run model batch_size seq_len tpu\<close> is the decoded
  output of the benchmark process started for one combination (\<open>subprocess.run\<close> without
  \<open>check\<close> returns whatever the exit status is). The result is the list of the
  \<open>Aggregate:\<close> rows the sweep prints, in the order it prints them.\<close>

definition aggregate ::
  "str \<Rightarrow> int \<Rightarrow> int \<Rightarrow> str \<Rightarrow> str \<Rightarrow> str \<times> int \<times> int \<times> str \<times> str" where
  "aggregate model seq_len batch_size xla_out native_out =
     (model, seq_len, batch_size, latency_of xla_out, latency_of native_out)"

definition sweep ::
  "(str \<Rightarrow> int \<Rightarrow> int \<Rightarrow> bool \<Rightarrow> str) \<Rightarrow> str list \<Rightarrow> int list \<Rightarrow> int list
     \<Rightarrow> (str \<times> int \<times> int \<times> str \<times> str) list" where
  "sweep run models sequence_lengths batch_sizes =
     concat (map (\<lambda>model.
       concat (map (\<lambda>seq_len.
         map (\<lambda>batch_size.
           aggregate model seq_len batch_size
             (run model batch_size seq_len True) (run model batch_size seq_len False))
           batch_sizes)
         sequence_lengths))
       models)"

section \<open>Properties of the optimizer\<close>

subsection \<open>Loops\<close>

lemma for_each_append:
  "for_each body (xs @ ys) acc w =
     (case for_each body xs acc w of
        Raise e w' \<Rightarrow> Raise e w'
      | Return acc' w' \<Rightarrow> for_each body ys acc' w')"
  by (induction xs arbitrary: acc w) (auto split: result.splits)

lemma for_each_not_raised:
  assumes "\<And>x acc w. x \<in> set xs \<Longrightarrow> raised (body x acc w) \<noteq> Some err"
  shows "raised (for_each body xs acc w) \<noteq> Some err"
  using assms
proof (induction xs arbitrary: acc w)
  case Nil
  then show ?case by simp
next
  case (Cons x xs)
  show ?case
  proof (cases "body x acc w")
    case (Raise e w')
    with Cons.prems[of x acc w] show ?thesis by simp
  next
    case (Return a w')
    with Cons show ?thesis by simp
  qed
qed

text \<open>An invariant of the store that every run of the body keeps, whether the body
  returns or raises, holds of the store the loop leaves.\<close>

lemma for_each_invariant:
  assumes "I w"
    and "\<And>x acc w. x \<in> set xs \<Longrightarrow> I w \<Longrightarrow> I (world_of (body x acc w))"
  shows "I (world_of (for_each body xs acc w))"
  using assms
proof (induction xs arbitrary: acc w)
  case Nil
  then show ?case by simp
next
  case (Cons x xs)
  have step: "I (world_of (body x acc w))"
    using Cons.prems by simp
  show ?case
  proof (cases "body x acc w")
    case (Raise e w')
    with step show ?thesis by simp
  next
    case (Return a w')
    with step have "I w'" by simp
    then have "I (world_of (for_each body xs a w'))"
      by (rule Cons.IH) (simp add: Cons.prems(2))
    with Return show ?thesis by simp
  qed
qed

lemma for_each_world:
  assumes "\<And>x acc w. x \<in> set xs \<Longrightarrow> Q (world_of (body x acc w)) = Q w"
  shows "Q (world_of (for_each body xs acc w)) = Q w"
  by (rule for_each_invariant[where I = "\<lambda>v. Q v = Q w"]) (simp_all add: assms)

subsection \<open>Tensor operations\<close>

lemma elems_ops [simp]:
  "elems (zeros_like t) = map (\<lambda>_. 0) (elems t)"
  "elems (ones_like t) = map (\<lambda>_. 1) (elems t)"
  "elems (mul t c) = map (\<lambda>x. x * c) (elems t)"
  "elems (add t other alpha) = map2 (\<lambda>x y. x + alpha * y) (elems t) (elems other)"
  "elems (maximum a b) = map2 max (elems a) (elems b)"
  "elems (tsqrt t) = map sqrt (elems t)"
  "elems (div_scalar t c) = map (\<lambda>x. x / c) (elems t)"
  "elems (add_scalar t c) = map (\<lambda>x. x + c) (elems t)"
  by (simp_all add: zeros_like_def ones_like_def mul_def add_def maximum_def tsqrt_def
      div_scalar_def add_scalar_def)

lemma map2_add_zeros:
  "length xs \<le> length ys \<Longrightarrow> map2 (+) xs (map (\<lambda>_. 0::real) ys) = xs"
  by (induction xs arbitrary: ys) (auto simp: Suc_le_length_iff)

lemma add_zeros_like:
  "numel t \<le> numel m \<Longrightarrow> add t (zeros_like m) 1 = t"
  by (simp add: add_def zeros_like_def numel_def map2_add_zeros)

subsection \<open>What the loop bodies leave alone\<close>

lemma body_frame:
  "state (world_of (adam_step_body grads exp_avgs exp_avg_sqs max_exp_avg_sqs state_steps amsgrad
       beta1 beta2 lr weight_decay eps found_inf ip u w)) = state w"
  "grad_of (world_of (adam_step_body grads exp_avgs exp_avg_sqs max_exp_avg_sqs state_steps amsgrad
       beta1 beta2 lr weight_decay eps found_inf ip u w)) = grad_of w"
  "param_groups (world_of (adam_step_body grads exp_avgs exp_avg_sqs max_exp_avg_sqs state_steps amsgrad
       beta1 beta2 lr weight_decay eps found_inf ip u w)) = param_groups w"
  by (simp_all add: adam_step_body_def index_def Let_def split: sum.splits)

lemma body_heap_other:
  assumes "x \<noteq> snd ip" "x \<noteq> exp_avgs ! fst ip" "x \<noteq> exp_avg_sqs ! fst ip"
    "amsgrad \<longrightarrow> x \<noteq> max_exp_avg_sqs ! fst ip"
  shows "heap (world_of (adam_step_body grads exp_avgs exp_avg_sqs max_exp_avg_sqs state_steps amsgrad
       beta1 beta2 lr weight_decay eps found_inf ip u w)) x = heap w x"
  using assms
  by (simp add: adam_step_body_def index_def Let_def split: sum.splits)

subsection \<open>The errors of a step\<close>

lemma body_not_scalar_error:
  "raised (adam_step_body grads exp_avgs exp_avg_sqs max_exp_avg_sqs state_steps amsgrad beta1 beta2
       lr weight_decay eps found_inf ip u w)
     \<noteq> Some (ValueError ''The found_inf tensor has to be scalar type'')"
  by (simp add: adam_step_body_def index_def Let_def split: sum.splits)

lemma visit_not_ValueError:
  "raised (visit_param grp found_inf p c w) \<noteq> Some (ValueError m)"
  by (simp add: visit_param_def Let_def split: option.splits)

lemma step_group_not_scalar_error:
  "raised (step_group fi grp u w) \<noteq> Some (ValueError ''The found_inf tensor has to be scalar type'')"
proof (cases "for_each (visit_param grp fi) (g_params grp) no_lists w")
  case (Raise e w')
  have "raised (for_each (visit_param grp fi) (g_params grp) no_lists w)
          \<noteq> Some (ValueError ''The found_inf tensor has to be scalar type'')"
    by (rule for_each_not_raised) (rule visit_not_ValueError)
  with Raise show ?thesis by (simp add: step_group_def)
next
  case (Return c w')
  then show ?thesis
    by (simp add: step_group_def adam_step_py_def for_each_not_raised body_not_scalar_error)
qed

text \<open>
  C6. A skip signal whose shape has nonzero rank makes \<open>step\<close> raise the ValueError of
  line 68 with the store as it was, whatever the closure; a skip signal of rank zero
  passes the check: the call never ends in that error.
\<close>

theorem found_inf_scalar_check:
  "(shape fi \<noteq> [] \<longrightarrow>
      Adam_step closure (Some fi) w
        = Raise (ValueError ''The found_inf tensor has to be scalar type'') w)
   \<and> (shape fi = [] \<longrightarrow>
      raised (Adam_step None (Some fi) w)
        \<noteq> Some (ValueError ''The found_inf tensor has to be scalar type''))"
proof (intro conjI impI)
  assume "shape fi \<noteq> []"
  then show "Adam_step closure (Some fi) w
        = Raise (ValueError ''The found_inf tensor has to be scalar type'') w"
    by (simp add: Adam_step_def)
next
  assume scalar: "shape fi = []"
  have loop: "raised (for_each (step_group fi) (param_groups w) () w)
        \<noteq> Some (ValueError ''The found_inf tensor has to be scalar type'')"
    by (rule for_each_not_raised) (rule step_group_not_scalar_error)
  show "raised (Adam_step None (Some fi) w)
        \<noteq> Some (ValueError ''The found_inf tensor has to be scalar type'')"
    using scalar loop
    by (cases "for_each (step_group fi) (param_groups w) () w")
       (simp_all add: Adam_step_def run_closure_def)
qed

theorem found_inf_scalar_check_witness:
  "shape (vec [0, 1]) \<noteq> []
   \<and> Adam_step None (Some (vec [0, 1])) scenario
        = Raise (ValueError ''The found_inf tensor has to be scalar type'') scenario
   \<and> shape (scalar 0) = []
   \<and> raised (Adam_step None (Some (scalar 0)) scenario)
        \<noteq> Some (ValueError ''The found_inf tensor has to be scalar type'')"
  using found_inf_scalar_check[of "vec [0, 1]" None scenario]
    found_inf_scalar_check[of "scalar 0" None scenario]
  by (simp add: vec_def scalar_def)

text \<open>
  C10. Called without a skip signal (\<open>found_inf = None\<close>, the default), \<open>step\<close> raises an
  AttributeError at the shape check of line 67, not the ValueError that reports a bad
  skip signal, and the store is as it was.
\<close>

theorem found_inf_omitted:
  "raised (Adam_step closure None w) = Some (AttributeError ''NoneType object has no attribute shape'')
   \<and> (\<forall>msg. raised (Adam_step closure None w) \<noteq> Some (ValueError msg))
   \<and> world_of (Adam_step closure None w) = w"
  by (simp add: Adam_step_def)

text \<open>
  C7. The constructor passes every tuple of hyperparameters with lr, eps and weight decay
  not negative and both betas in [0, 1) on to the constructor of the base class, with
  these values as the defaults; for any other tuple it raises a ValueError itself, before
  the base class is reached.
\<close>

theorem init_validates_hyperparameters:
  "(0 \<le> lr \<and> 0 \<le> eps \<and> 0 \<le> weight_decay \<and> 0 \<le> fst betas \<and> fst betas < 1
      \<and> 0 \<le> snd betas \<and> snd betas < 1 \<longrightarrow>
      Adam_init super_init params lr betas eps weight_decay amsgrad
        = super_init params \<lparr>d_lr = lr, d_betas = betas, d_eps = eps,
                              d_weight_decay = weight_decay, d_amsgrad = amsgrad\<rparr>)
   \<and> (lr < 0 \<or> eps < 0 \<or> weight_decay < 0 \<or> fst betas < 0 \<or> 1 \<le> fst betas
      \<or> snd betas < 0 \<or> 1 \<le> snd betas \<longrightarrow>
      (\<exists>msg. Adam_init super_init params lr betas eps weight_decay amsgrad = Inl (ValueError msg)))"
  by (auto simp: Adam_init_def)

theorem init_validates_hyperparameters_witness:
  "Adam_init (Optimizer_init (heap scenario) (grad_of scenario)) [0] (1 / 1000) (9 / 10, 999 / 1000)
       (1 / 100000000) 0 False
     = Inr (scenario\<lparr>grad_of := grad_of scenario\<rparr>)
   \<and> (\<exists>msg. Adam_init (Optimizer_init (heap scenario) (grad_of scenario)) [0] (- 1) (9 / 10, 999 / 1000)
       (1 / 100000000) 0 False = Inl (ValueError msg))
   \<and> (\<exists>msg. Adam_init (Optimizer_init (heap scenario) (grad_of scenario)) [0] (1 / 1000) (9 / 10, 1)
       (1 / 100000000) 0 False = Inl (ValueError msg))"
  using init_validates_hyperparameters[of "1 / 1000" "1 / 100000000" 0 "(9 / 10, 999 / 1000)"
      "Optimizer_init (heap scenario) (grad_of scenario)" "[0]" False]
    init_validates_hyperparameters[of "- 1" "1 / 100000000" 0 "(9 / 10, 999 / 1000)"
      "Optimizer_init (heap scenario) (grad_of scenario)" "[0]" False]
    init_validates_hyperparameters[of "1 / 1000" "1 / 100000000" 0 "(9 / 10, 1)"
      "Optimizer_init (heap scenario) (grad_of scenario)" "[0]" False]
  by (simp add: Optimizer_init_def scenario_def)

subsection \<open>The collecting loop\<close>

lemma same_estimates_refl: "same_estimates w w"
  by (simp add: same_estimates_def)

lemma same_estimates_trans:
  "same_estimates w v \<Longrightarrow> same_estimates v u \<Longrightarrow> same_estimates w u"
  by (simp add: same_estimates_def)

lemma visit_frame:
  "grad_of (world_of (visit_param grp fi p c w)) = grad_of w"
  "param_groups (world_of (visit_param grp fi p c w)) = param_groups w"
  "heap (world_of (visit_param grp fi p c w)) (Param q) = heap w (Param q)"
  by (simp_all add: visit_param_def init_state_def Let_def split: option.splits)

lemma visit_other:
  assumes "q \<noteq> p"
  shows "state (world_of (visit_param grp fi p c w)) q = state w q"
    "heap (world_of (visit_param grp fi p c w)) (ExpAvg q) = heap w (ExpAvg q)"
    "heap (world_of (visit_param grp fi p c w)) (ExpAvgSq q) = heap w (ExpAvgSq q)"
    "heap (world_of (visit_param grp fi p c w)) (MaxExpAvgSq q) = heap w (MaxExpAvgSq q)"
  using assms
  by (simp_all add: visit_param_def init_state_def Let_def split: option.splits)

lemma visit_moments:
  "exp_avg_of (world_of (visit_param grp fi p c w)) q = exp_avg_of w q"
  "exp_avg_sq_of (world_of (visit_param grp fi p c w)) q = exp_avg_sq_of w q"
  by (simp_all add: visit_param_def init_state_def Let_def exp_avg_of_def exp_avg_sq_of_def
      split: option.splits)

lemma visit_step_of:
  "step_of (world_of (visit_param grp fi p c w)) q =
     step_of w q +
       (if q = p \<and> grad_of w p \<noteq> None \<and> raised (visit_param grp fi p c w) = None
           \<and> \<not> tensor_bool fi then 1 else 0)"
  by (simp add: visit_param_def init_state_def Let_def step_of_def new_state_def
      split: option.splits)

lemma visit_shaped:
  "state_shaped w \<Longrightarrow> state_shaped (world_of (visit_param grp fi p c w))"
  by (simp add: visit_param_def init_state_def Let_def state_shaped_def numel_def
      split: option.splits)

lemma visit_lists:
  assumes "lists_for (g_amsgrad grp) qs c" "visit_param grp fi p c w = Return c' w'"
  shows "lists_for (g_amsgrad grp) (qs @ (if grad_of w p = None then [] else [p])) c'"
    "grad_of w p \<noteq> None \<Longrightarrow> state w' p \<noteq> None"
  using assms
  by (auto simp: visit_param_def init_state_def Let_def lists_for_def
      split: option.splits if_splits)

lemma visit_keeps_state:
  "state w q \<noteq> None \<Longrightarrow> state (world_of (visit_param grp fi p c w)) q \<noteq> None"
  by (simp add: visit_param_def init_state_def Let_def split: option.splits)

lemma visit_loop_keeps_state:
  assumes "state w q \<noteq> None"
  shows "state (world_of (for_each (visit_param grp fi) ps c w)) q \<noteq> None"
  by (rule for_each_invariant[where I = "\<lambda>v. state v q \<noteq> None"])
     (simp_all add: assms visit_keeps_state)

lemma visit_loop_grad:
  "grad_of (world_of (for_each (visit_param grp fi) ps c w)) = grad_of w"
  by (rule for_each_world) (simp add: visit_frame)

lemma visit_loop_lists:
  assumes "lists_for (g_amsgrad grp) qs c"
    and "for_each (visit_param grp fi) ps c w = Return c' w'"
  shows "lists_for (g_amsgrad grp) (qs @ filter (\<lambda>q. grad_of w q \<noteq> None) ps) c'
         \<and> (\<forall>q\<in>set ps. grad_of w q \<noteq> None \<longrightarrow> state w' q \<noteq> None)"
  using assms
proof (induction ps arbitrary: qs c w)
  case Nil
  then show ?case by simp
next
  case (Cons p ps)
  from Cons.prems(2) obtain c1 w1 where
    v: "visit_param grp fi p c w = Return c1 w1"
    and rest: "for_each (visit_param grp fi) ps c1 w1 = Return c' w'"
    by (auto split: result.splits)
  have g1: "grad_of w1 = grad_of w"
    using visit_frame(1)[of grp fi p c w] v by simp
  have l1: "lists_for (g_amsgrad grp) (qs @ (if grad_of w p = None then [] else [p])) c1"
    using visit_lists(1)[OF Cons.prems(1) v] .
  from Cons.IH[OF l1 rest]
  have ih: "lists_for (g_amsgrad grp)
             ((qs @ (if grad_of w p = None then [] else [p])) @ filter (\<lambda>q. grad_of w1 q \<noteq> None) ps) c'"
    and ih3: "\<forall>q\<in>set ps. grad_of w1 q \<noteq> None \<longrightarrow> state w' q \<noteq> None"
    by simp_all
  have "state w' p \<noteq> None" if "grad_of w p \<noteq> None"
  proof -
    have "state w1 p \<noteq> None" using visit_lists(2)[OF Cons.prems(1) v] that by simp
    then show ?thesis using visit_loop_keeps_state[of w1 p grp fi ps c1] rest by simp
  qed
  then show ?case using ih ih3 by (auto simp: g1)
qed

lemma no_lists_for: "lists_for a [] no_lists"
  by (simp add: lists_for_def no_lists_def)

text \<open>With the skip signal set, the body writes the parameter plus zero and, under
  amsgrad, the running maximum; nothing else.\<close>

lemma body_skip:
  assumes "tensor_bool found_inf"
    and "snd ip = Param q" "exp_avgs ! fst ip = ExpAvg q"
    and "amsgrad \<longrightarrow> max_exp_avg_sqs ! fst ip = MaxExpAvgSq q"
    and "numel (heap w (Param q)) \<le> numel (heap w (ExpAvg q))"
    and "\<forall>q'. x \<noteq> MaxExpAvgSq q'"
  shows "heap (world_of (adam_step_body grads exp_avgs exp_avg_sqs max_exp_avg_sqs state_steps amsgrad
       beta1 beta2 lr weight_decay eps found_inf ip u w)) x = heap w x"
  using assms
  by (simp add: adam_step_body_def index_def Let_def add_zeros_like split: sum.splits)

lemma adam_step_py_skip:
  assumes fi: "tensor_bool found_inf"
    and lists: "lists_for amsgrad qs c"
    and shaped: "\<forall>q\<in>set qs. numel (heap w (Param q)) \<le> numel (heap w (ExpAvg q))"
  shows "skip_inv w (world_of (adam_step_py (c_params_with_grad c) (c_grads c) (c_exp_avgs c)
           (c_exp_avg_sqs c) (c_max_exp_avg_sqs c) (c_state_steps c) amsgrad beta1 beta2 lr
           weight_decay eps found_inf w))"
  unfolding adam_step_py_def
proof (rule for_each_invariant[where I = "skip_inv w"])
  show "skip_inv w w" by (simp add: skip_inv_def)
next
  fix ip :: "nat \<times> ref" and acc :: unit and v
  assume mem: "ip \<in> set (zip [0..<length (c_params_with_grad c)] (c_params_with_grad c))"
    and inv: "skip_inv w v"
  from mem obtain i where i: "i < length qs" "ip = (i, Param (qs ! i))"
    using lists by (auto simp: lists_for_def set_zip)
  let ?q = "qs ! i"
  have refs: "snd ip = Param ?q" "c_exp_avgs c ! fst ip = ExpAvg ?q"
    "amsgrad \<longrightarrow> c_max_exp_avg_sqs c ! fst ip = MaxExpAvgSq ?q"
    using i lists by (simp_all add: lists_for_def)
  have len: "numel (heap v (Param ?q)) \<le> numel (heap v (ExpAvg ?q))"
    using shaped i(1) inv by (simp add: skip_inv_def)
  let ?r = "adam_step_body (c_grads c) (c_exp_avgs c) (c_exp_avg_sqs c) (c_max_exp_avg_sqs c)
       (c_state_steps c) amsgrad beta1 beta2 lr weight_decay eps found_inf ip acc v"
  have "heap (world_of ?r) x = heap v x" if "\<forall>q'. x \<noteq> MaxExpAvgSq q'" for x
    by (rule body_skip[OF fi refs len that])
  moreover have "state (world_of ?r) = state v" by (rule body_frame)
  ultimately show "skip_inv w (world_of ?r)" using inv by (simp add: skip_inv_def)
qed

lemma skip_inv_same_estimates:
  "skip_inv w v \<Longrightarrow> same_estimates w v"
  by (auto simp: skip_inv_def same_estimates_def exp_avg_of_def exp_avg_sq_of_def step_of_def
      split: option.splits)

lemma skip_inv_shaped:
  "skip_inv w v \<Longrightarrow> state_shaped w \<Longrightarrow> state_shaped v"
  by (simp add: skip_inv_def state_shaped_def)

lemma visit_skip_same:
  "tensor_bool fi \<Longrightarrow> same_estimates w (world_of (visit_param grp fi p c w))"
  by (simp add: same_estimates_def visit_frame visit_moments visit_step_of)

lemma frozen_refl: "state_shaped w \<Longrightarrow> frozen w w"
  by (simp add: frozen_def same_estimates_refl)

lemma visit_loop_skip:
  assumes "tensor_bool fi" "frozen w0 w"
  shows "frozen w0 (world_of (for_each (visit_param grp fi) ps c w))"
proof (rule for_each_invariant[where I = "frozen w0"])
  show "frozen w0 w" by fact
next
  fix p acc v
  assume "frozen w0 v"
  then show "frozen w0 (world_of (visit_param grp fi p acc v))"
    using visit_skip_same[OF assms(1), of v grp p acc] visit_shaped[of v grp fi p acc]
    by (auto simp: frozen_def intro: same_estimates_trans)
qed

lemma step_group_skip:
  assumes fi: "tensor_bool fi" and fr: "frozen w0 w"
  shows "frozen w0 (world_of (step_group fi grp u w))"
proof (cases "for_each (visit_param grp fi) (g_params grp) no_lists w")
  case (Raise e w1)
  with visit_loop_skip[OF fi fr, of grp "g_params grp" no_lists]
  show ?thesis by (simp add: step_group_def)
next
  case (Return c w1)
  have f1: "frozen w0 w1"
    using visit_loop_skip[OF fi fr, of grp "g_params grp" no_lists] Return by simp
  let ?qs = "filter (\<lambda>q. grad_of w q \<noteq> None) (g_params grp)"
  from visit_loop_lists[OF no_lists_for Return]
  have lists: "lists_for (g_amsgrad grp) ?qs c"
    and st: "\<forall>q\<in>set (g_params grp). grad_of w q \<noteq> None \<longrightarrow> state w1 q \<noteq> None"
    by simp_all
  have shaped: "\<forall>q\<in>set ?qs. numel (heap w1 (Param q)) \<le> numel (heap w1 (ExpAvg q))"
    using st f1 by (auto simp: frozen_def state_shaped_def)
  let ?w2 = "world_of (adam_step_py (c_params_with_grad c) (c_grads c) (c_exp_avgs c)
           (c_exp_avg_sqs c) (c_max_exp_avg_sqs c) (c_state_steps c) (g_amsgrad grp)
           (fst (g_betas grp)) (snd (g_betas grp)) (g_lr grp) (g_weight_decay grp) (g_eps grp) fi w1)"
  have "skip_inv w1 ?w2"
    by (rule adam_step_py_skip[OF fi lists shaped])
  then have "frozen w0 ?w2"
    using f1 skip_inv_same_estimates[of w1 ?w2] skip_inv_shaped[of w1 ?w2]
    by (auto simp: frozen_def intro: same_estimates_trans)
  then show ?thesis using Return by (simp add: step_group_def)
qed

lemma Adam_step_skip:
  assumes fi: "tensor_bool fi" and sh: "state_shaped w"
  shows "frozen w (world_of (Adam_step None (Some fi) w))"
proof -
  have loop: "frozen w (world_of (for_each (step_group fi) (param_groups w) () w))"
    by (rule for_each_invariant[where I = "frozen w"])
       (simp_all add: frozen_refl sh step_group_skip[OF fi])
  show ?thesis
  proof (cases "length (shape fi) \<noteq> 0")
    case True
    then show ?thesis by (simp add: Adam_step_def frozen_refl sh)
  next
    case False
    then show ?thesis using loop
      by (cases "for_each (step_group fi) (param_groups w) () w")
         (simp_all add: Adam_step_def run_closure_def)
  qed
qed

lemma views_set_grads:
  "exp_avg_of (w\<lparr>grad_of := g\<rparr>) p = exp_avg_of w p"
  "exp_avg_sq_of (w\<lparr>grad_of := g\<rparr>) p = exp_avg_sq_of w p"
  "step_of (w\<lparr>grad_of := g\<rparr>) p = step_of w p"
  "state_shaped (w\<lparr>grad_of := g\<rparr>) = state_shaped w"
  by (simp_all add: exp_avg_of_def exp_avg_sq_of_def step_of_def state_shaped_def
      split: option.splits)

lemma frozen_set_grads:
  "frozen w0 w \<Longrightarrow> frozen w0 (w\<lparr>grad_of := g\<rparr>)"
  by (simp add: frozen_def same_estimates_def views_set_grads)

lemma frozen_trans: "frozen w v \<Longrightarrow> frozen v u \<Longrightarrow> frozen w u"
  by (auto simp: frozen_def intro: same_estimates_trans)

lemma calls_skip:
  assumes "\<forall>gf\<in>set cs. tensor_bool (snd gf)" "frozen w0 w"
  shows "frozen w0 (calls cs w)"
  using assms
proof (induction cs arbitrary: w)
  case Nil
  then show ?case by simp
next
  case (Cons gf cs)
  let ?w1 = "w\<lparr>grad_of := fst gf\<rparr>"
  have f1: "frozen w0 ?w1" using Cons.prems(2) by (rule frozen_set_grads)
  then have "state_shaped ?w1" by (simp add: frozen_def)
  then have "frozen ?w1 (world_of (Adam_step None (Some (snd gf)) ?w1))"
    using Cons.prems(1) by (simp add: Adam_step_skip)
  with f1 have "frozen w0 (world_of (Adam_step None (Some (snd gf)) ?w1))"
    by (rule frozen_trans)
  then show ?case using Cons.IH Cons.prems(1) by simp
qed

text \<open>
  C3. Whatever gradients the backward passes leave, after any number of consecutive calls
  of \<open>step\<close> that all get a set skip signal, every parameter has the value, the first
  moment, the second moment and the step count it had before the first of them. (A
  parameter whose state is created during these calls gets zero moments and step count
  0, the values its missing state stands for.)
\<close>

theorem skip_freezes_parameter:
  assumes "state_shaped w" and "\<forall>gf\<in>set cs. tensor_bool (snd gf)"
  shows "heap (calls cs w) (Param p) = heap w (Param p)
       \<and> exp_avg_of (calls cs w) p = exp_avg_of w p
       \<and> exp_avg_sq_of (calls cs w) p = exp_avg_sq_of w p
       \<and> step_of (calls cs w) p = step_of w p"
  using calls_skip[OF assms(2) frozen_refl[OF assms(1)]]
  by (simp add: frozen_def same_estimates_def)

theorem skip_freezes_parameter_witness:
  "state_shaped scenario \<and> tensor_bool (scalar 1)
   \<and> heap (calls [(grad_of scenario, scalar 1), (grad_of scenario, scalar 1)] scenario) (Param 0)
        = heap scenario (Param 0)
   \<and> exp_avg_of (calls [(grad_of scenario, scalar 1), (grad_of scenario, scalar 1)] scenario) 0
        = exp_avg_of scenario 0
   \<and> exp_avg_sq_of (calls [(grad_of scenario, scalar 1), (grad_of scenario, scalar 1)] scenario) 0
        = exp_avg_sq_of scenario 0
   \<and> step_of (calls [(grad_of scenario, scalar 1), (grad_of scenario, scalar 1)] scenario) 0
        = step_of scenario 0"
proof -
  have sh: "state_shaped scenario"
    by (simp add: state_shaped_def scenario_def)
  have fi: "tensor_bool (scalar 1)"
    by (simp add: tensor_bool_def scalar_def)
  then have all: "\<forall>gf\<in>set [(grad_of scenario, scalar 1), (grad_of scenario, scalar 1)]. tensor_bool (snd gf)"
    by simp
  show ?thesis
    using skip_freezes_parameter[OF sh all, of 0] sh fi by simp
qed

subsection \<open>Step counts\<close>

lemma adam_step_py_frame:
  "state (world_of (adam_step_py params grads exp_avgs exp_avg_sqs max_exp_avg_sqs state_steps
      amsgrad beta1 beta2 lr weight_decay eps found_inf w)) = state w"
  "grad_of (world_of (adam_step_py params grads exp_avgs exp_avg_sqs max_exp_avg_sqs state_steps
      amsgrad beta1 beta2 lr weight_decay eps found_inf w)) = grad_of w"
  "param_groups (world_of (adam_step_py params grads exp_avgs exp_avg_sqs max_exp_avg_sqs state_steps
      amsgrad beta1 beta2 lr weight_decay eps found_inf w)) = param_groups w"
  unfolding adam_step_py_def
  by (rule for_each_world, simp add: body_frame)+

lemma visit_loop_frame:
  "grad_of (world_of (for_each (visit_param grp fi) ps c w)) = grad_of w"
  "param_groups (world_of (for_each (visit_param grp fi) ps c w)) = param_groups w"
  by (rule for_each_world, simp add: visit_frame)+

lemma step_group_frame:
  "grad_of (world_of (step_group fi grp u w)) = grad_of w"
  "param_groups (world_of (step_group fi grp u w)) = param_groups w"
  by (cases "for_each (visit_param grp fi) (g_params grp) no_lists w";
      use visit_loop_frame[of grp fi "g_params grp" no_lists w] in
        \<open>simp add: step_group_def adam_step_py_frame\<close>)+

lemma step_groups_frame:
  "grad_of (world_of (for_each (step_group fi) gs u w)) = grad_of w"
  "param_groups (world_of (for_each (step_group fi) gs u w)) = param_groups w"
  by (rule for_each_world, simp add: step_group_frame)+

lemma step_of_state: "state v = state w \<Longrightarrow> step_of v p = step_of w p"
  by (simp add: step_of_def)

text \<open>The collecting loop, when it returns, has added to the step count of a parameter
  one for each of its visits with a gradient, unless the skip signal is set.\<close>

lemma visit_loop_step_of:
  assumes "for_each (visit_param grp fi) ps c w = Return c' w'"
  shows "step_of w' q =
     step_of w q + (if tensor_bool fi then 0
                    else count_list (filter (\<lambda>x. grad_of w x \<noteq> None) ps) q)"
  using assms
proof (induction ps arbitrary: c w)
  case Nil
  then show ?case by simp
next
  case (Cons p ps)
  from Cons.prems obtain c1 w1 where
    v: "visit_param grp fi p c w = Return c1 w1"
    and rest: "for_each (visit_param grp fi) ps c1 w1 = Return c' w'"
    by (auto split: result.splits)
  have g1: "grad_of w1 = grad_of w"
    using visit_frame(1)[of grp fi p c w] v by simp
  have s1: "step_of w1 q = step_of w q +
      (if q = p \<and> grad_of w p \<noteq> None \<and> \<not> tensor_bool fi then 1 else 0)"
    using visit_step_of[of grp fi p c w q] v by simp
  show ?case
    using Cons.IH[OF rest] s1 by (simp add: g1)
qed

lemma visit_loop_step_mono:
  "step_of w q \<le> step_of (world_of (for_each (visit_param grp fi) ps c w)) q"
  by (rule for_each_invariant[where I = "\<lambda>v. step_of w q \<le> step_of v q"])
     (simp_all add: visit_step_of)

lemma step_group_step_mono:
  "step_of w q \<le> step_of (world_of (step_group fi grp u w)) q"
  using visit_loop_step_mono[of w q grp fi "g_params grp" no_lists]
  by (cases "for_each (visit_param grp fi) (g_params grp) no_lists w")
     (simp_all add: step_group_def step_of_state[OF adam_step_py_frame(1)])

lemma step_group_step_of:
  assumes "raised (step_group fi grp u w) = None"
  shows "step_of (world_of (step_group fi grp u w)) q =
     step_of w q + (if tensor_bool fi then 0
                    else count_list (filter (\<lambda>x. grad_of w x \<noteq> None) (g_params grp)) q)"
proof (cases "for_each (visit_param grp fi) (g_params grp) no_lists w")
  case (Raise e w1)
  with assms show ?thesis by (simp add: step_group_def)
next
  case (Return c w1)
  then show ?thesis
    using visit_loop_step_of[OF Return, of q]
    by (simp add: step_group_def step_of_state[OF adam_step_py_frame(1)])
qed

lemma step_group_skip_step_of:
  assumes "tensor_bool fi"
  shows "step_of (world_of (step_group fi grp u w)) q = step_of w q"
proof -
  have "step_of (world_of (for_each (visit_param grp fi) (g_params grp) no_lists w)) q = step_of w q"
    by (rule for_each_world) (simp add: visit_step_of assms)
  then show ?thesis
    by (cases "for_each (visit_param grp fi) (g_params grp) no_lists w")
       (simp_all add: step_group_def step_of_state[OF adam_step_py_frame(1)])
qed

lemma step_groups_step_of:
  assumes "for_each (step_group fi) gs u w = Return u' w'"
  shows "step_of w' q =
     step_of w q + (if tensor_bool fi then 0
                    else count_list (filter (\<lambda>x. grad_of w x \<noteq> None) (concat (map g_params gs))) q)"
  using assms
proof (induction gs arbitrary: u w)
  case Nil
  then show ?case by simp
next
  case (Cons grp gs)
  from Cons.prems obtain u1 w1 where
    g: "step_group fi grp u w = Return u1 w1"
    and rest: "for_each (step_group fi) gs u1 w1 = Return u' w'"
    by (auto split: result.splits)
  have g1: "grad_of w1 = grad_of w"
    using step_group_frame(1)[of fi grp u w] g by simp
  have s1: "step_of w1 q = step_of w q + (if tensor_bool fi then 0
                    else count_list (filter (\<lambda>x. grad_of w x \<noteq> None) (g_params grp)) q)"
    using step_group_step_of[of fi grp u w q] g by simp
  show ?case
    using Cons.IH[OF rest] s1 by (simp add: g1)
qed

lemma count_list_filter:
  "count_list (filter P xs) x = (if P x then count_list xs x else 0)"
  by (induction xs) auto

lemma Adam_step_step_mono:
  "step_of w q \<le> step_of (world_of (Adam_step None found_inf w)) q"
proof (cases found_inf)
  case None
  then show ?thesis by (simp add: Adam_step_def)
next
  case (Some fi)
  have loop: "step_of w q \<le> step_of (world_of (for_each (step_group fi) (param_groups w) () w)) q"
  proof (rule for_each_invariant[where I = "\<lambda>v. step_of w q \<le> step_of v q"])
    show "step_of w q \<le> step_of w q" by simp
  next
    fix grp acc v
    assume "step_of w q \<le> step_of v q"
    then show "step_of w q \<le> step_of (world_of (step_group fi grp acc v)) q"
      using step_group_step_mono[of v q fi grp acc] by simp
  qed
  show ?thesis
    using Some loop
    by (cases "for_each (step_group fi) (param_groups w) () w")
       (simp_all add: Adam_step_def run_closure_def)
qed

lemma Adam_step_skip_step_of:
  assumes "tensor_bool fi"
  shows "step_of (world_of (Adam_step None (Some fi) w)) q = step_of w q"
proof -
  have "step_of (world_of (for_each (step_group fi) (param_groups w) () w)) q = step_of w q"
    by (rule for_each_world) (simp add: step_group_skip_step_of assms)
  then show ?thesis
    by (cases "for_each (step_group fi) (param_groups w) () w")
       (simp_all add: Adam_step_def run_closure_def)
qed

lemma Adam_step_returns:
  assumes "raised (Adam_step None (Some fi) w) = None"
  obtains u w' where "shape fi = []" "for_each (step_group fi) (param_groups w) () w = Return u w'"
    "world_of (Adam_step None (Some fi) w) = w'"
  using assms
  by (cases "for_each (step_group fi) (param_groups w) () w")
     (auto simp: Adam_step_def run_closure_def split: if_splits)

lemma calls_step_mono: "step_of w q \<le> step_of (calls cs w) q"
proof (induction cs arbitrary: w)
  case Nil
  then show ?case by simp
next
  case (Cons gf cs)
  have "step_of w q = step_of (w\<lparr>grad_of := fst gf\<rparr>) q"
    by (simp add: step_of_def)
  also have "\<dots> \<le> step_of (world_of (Adam_step None (Some (snd gf)) (w\<lparr>grad_of := fst gf\<rparr>))) q"
    by (rule Adam_step_step_mono)
  also have "\<dots> \<le> step_of (calls (gf # cs) w) q"
    using Cons.IH by simp
  finally show ?case .
qed

subsection \<open>Running the example\<close>

lemmas step_defs = Adam_step_def run_closure_def step_group_def visit_param_def init_state_def
  new_state_def no_lists_def adam_step_py_def adam_step_body_def index_def Let_def
  tensor_where_def tensor_bool_def scalar_def vec_def zeros_like_def ones_like_def mul_def add_def
  addcmul_def addcdiv_def maximum_def tsqrt_def div_scalar_def add_scalar_def

lemma sqrt_scale: "sqrt (x / 100) = sqrt x / 10"
proof -
  have "sqrt (x / 100) = sqrt x / sqrt 100" by (rule real_sqrt_divide)
  moreover have "sqrt 100 = sqrt (10\<^sup>2)" by simp
  ultimately show ?thesis by (simp only: real_sqrt_abs)
qed

lemma sqrt_first_step: "sqrt (1 / 100000) = sqrt (1 / 1000) / 10"
  using sqrt_scale[of "1 / 1000"] by simp

lemma sqrt_second_step: "sqrt (1999 / 100000000) = sqrt (1999 / 1000000) / 10"
  using sqrt_scale[of "1999 / 1000000"] by simp

lemma scenario_returns: "raised (Adam_step None (Some (scalar 0)) scenario) = None"
  by (simp add: step_defs scenario_def)

subsection \<open>Parameters a step does not touch\<close>

lemma visit_own:
  assumes "q \<noteq> p \<or> grad_of w p = None"
  shows "own p (world_of (visit_param grp fi q c w)) = own p w"
  using assms
  by (auto simp: own_def visit_param_def init_state_def Let_def split: option.splits)

lemma visit_loop_own:
  assumes "p \<notin> set ps \<or> grad_of w p = None"
  shows "own p (world_of (for_each (visit_param grp fi) ps c w)) = own p w"
proof -
  have "own p (world_of (for_each (visit_param grp fi) ps c w)) = own p w
        \<and> grad_of (world_of (for_each (visit_param grp fi) ps c w)) = grad_of w"
  proof (rule for_each_invariant[where I = "\<lambda>v. own p v = own p w \<and> grad_of v = grad_of w"])
    show "own p w = own p w \<and> grad_of w = grad_of w" by simp
  next
    fix x acc v
    assume x: "x \<in> set ps" and inv: "own p v = own p w \<and> grad_of v = grad_of w"
    have "x \<noteq> p \<or> grad_of v p = None" using assms x inv by auto
    then have "own p (world_of (visit_param grp fi x acc v)) = own p v"
      by (rule visit_own)
    then show "own p (world_of (visit_param grp fi x acc v)) = own p w
        \<and> grad_of (world_of (visit_param grp fi x acc v)) = grad_of w"
      using inv by (simp add: visit_frame)
  qed
  then show ?thesis by simp
qed

lemma body_own:
  assumes "snd ip = Param q" "exp_avgs ! fst ip = ExpAvg q" "exp_avg_sqs ! fst ip = ExpAvgSq q"
    "amsgrad \<longrightarrow> max_exp_avg_sqs ! fst ip = MaxExpAvgSq q" "q \<noteq> p"
  shows "own p (world_of (adam_step_body grads exp_avgs exp_avg_sqs max_exp_avg_sqs state_steps amsgrad
       beta1 beta2 lr weight_decay eps found_inf ip u w)) = own p w"
  using assms by (simp add: own_def body_frame body_heap_other)

lemma adam_step_py_own:
  assumes lists: "lists_for amsgrad qs c" and p: "p \<notin> set qs"
  shows "own p (world_of (adam_step_py (c_params_with_grad c) (c_grads c) (c_exp_avgs c)
           (c_exp_avg_sqs c) (c_max_exp_avg_sqs c) (c_state_steps c) amsgrad beta1 beta2 lr
           weight_decay eps found_inf w)) = own p w"
  unfolding adam_step_py_def
proof (rule for_each_world)
  fix ip :: "nat \<times> ref" and acc :: unit and v
  assume mem: "ip \<in> set (zip [0..<length (c_params_with_grad c)] (c_params_with_grad c))"
  from mem obtain i where i: "i < length qs" "ip = (i, Param (qs ! i))"
    using lists by (auto simp: lists_for_def set_zip)
  have refs: "snd ip = Param (qs ! i)" "c_exp_avgs c ! fst ip = ExpAvg (qs ! i)"
    "c_exp_avg_sqs c ! fst ip = ExpAvgSq (qs ! i)"
    "amsgrad \<longrightarrow> c_max_exp_avg_sqs c ! fst ip = MaxExpAvgSq (qs ! i)"
    using i lists by (simp_all add: lists_for_def)
  have ne: "qs ! i \<noteq> p" using p i(1) by auto
  show "own p (world_of (adam_step_body (c_grads c) (c_exp_avgs c) (c_exp_avg_sqs c)
       (c_max_exp_avg_sqs c) (c_state_steps c) amsgrad beta1 beta2 lr weight_decay eps found_inf
       ip acc v)) = own p v"
    by (rule body_own[OF refs ne])
qed

lemma step_group_own:
  assumes "p \<notin> set (g_params grp) \<or> grad_of w p = None"
  shows "own p (world_of (step_group fi grp u w)) = own p w"
proof (cases "for_each (visit_param grp fi) (g_params grp) no_lists w")
  case (Raise e w1)
  with visit_loop_own[OF assms, of grp fi no_lists] show ?thesis
    by (simp add: step_group_def)
next
  case (Return c w1)
  have o1: "own p w1 = own p w"
    using visit_loop_own[OF assms, of grp fi no_lists] Return by simp
  have lists: "lists_for (g_amsgrad grp) (filter (\<lambda>q. grad_of w q \<noteq> None) (g_params grp)) c"
    using visit_loop_lists[OF no_lists_for Return] by simp
  have "p \<notin> set (filter (\<lambda>q. grad_of w q \<noteq> None) (g_params grp))"
    using assms by auto
  from adam_step_py_own[OF lists this] o1 Return show ?thesis
    by (simp add: step_group_def)
qed

lemma step_groups_own:
  assumes "(\<forall>grp\<in>set gs. p \<notin> set (g_params grp)) \<or> grad_of w p = None"
  shows "own p (world_of (for_each (step_group fi) gs u w)) = own p w"
proof -
  have "own p (world_of (for_each (step_group fi) gs u w)) = own p w
        \<and> grad_of (world_of (for_each (step_group fi) gs u w)) = grad_of w"
  proof (rule for_each_invariant[where I = "\<lambda>v. own p v = own p w \<and> grad_of v = grad_of w"])
    show "own p w = own p w \<and> grad_of w = grad_of w" by simp
  next
    fix x acc v
    assume x: "x \<in> set gs" and inv: "own p v = own p w \<and> grad_of v = grad_of w"
    have "p \<notin> set (g_params x) \<or> grad_of v p = None" using assms x inv by auto
    then have "own p (world_of (step_group fi x acc v)) = own p v"
      by (rule step_group_own)
    then show "own p (world_of (step_group fi x acc v)) = own p w
        \<and> grad_of (world_of (step_group fi x acc v)) = grad_of w"
      using inv by (simp add: step_group_frame)
  qed
  then show ?thesis by simp
qed

lemma Adam_step_own:
  assumes "(\<forall>grp\<in>set (param_groups w). p \<notin> set (g_params grp)) \<or> grad_of w p = None"
  shows "own p (world_of (Adam_step None found_inf w)) = own p w"
proof (cases found_inf)
  case None
  then show ?thesis by (simp add: Adam_step_def)
next
  case (Some fi)
  have loop: "own p (world_of (for_each (step_group fi) (param_groups w) () w)) = own p w"
    using assms by (rule step_groups_own)
  show ?thesis
    using Some loop
    by (cases "for_each (step_group fi) (param_groups w) () w")
       (simp_all add: Adam_step_def run_closure_def)
qed

lemma step_of_own: "own p v = own p w \<Longrightarrow> step_of v p = step_of w p"
  by (simp add: own_def step_of_def)

text \<open>
  C4. The step count of a parameter never decreases, over one call of \<open>step\<close> (returning
  or raising) and over any sequence of calls. A call with the skip signal set leaves it
  as it was; a call with the skip signal unset that returns adds exactly one to the step
  count of a parameter that has a gradient and stands once in the parameter groups.
  Not every parameter is counted in a call with the skip signal unset: the loop of
  lines 82 and 83 passes over a parameter that has no gradient, and a parameter without
  a gradient (or one that stands in no group) keeps its step count in every call,
  whatever the skip signal and whether the call returns or raises.
\<close>

theorem step_count_increments:
  "step_of w p \<le> step_of (calls cs w) p
   \<and> step_of w p \<le> step_of (world_of (Adam_step None (Some fi) w)) p
   \<and> (tensor_bool fi \<longrightarrow> step_of (world_of (Adam_step None (Some fi) w)) p = step_of w p)
   \<and> (\<not> tensor_bool fi \<and> raised (Adam_step None (Some fi) w) = None \<and> grad_of w p \<noteq> None
        \<and> count_list (concat (map g_params (param_groups w))) p = 1 \<longrightarrow>
      step_of (world_of (Adam_step None (Some fi) w)) p = step_of w p + 1)
   \<and> (grad_of w p = None \<or> (\<forall>grp\<in>set (param_groups w). p \<notin> set (g_params grp)) \<longrightarrow>
      step_of (world_of (Adam_step None (Some fi) w)) p = step_of w p)"
proof (intro conjI impI)
  show "step_of w p \<le> step_of (calls cs w) p" by (rule calls_step_mono)
  show "step_of w p \<le> step_of (world_of (Adam_step None (Some fi) w)) p"
    by (rule Adam_step_step_mono)
  show "step_of (world_of (Adam_step None (Some fi) w)) p = step_of w p" if "tensor_bool fi"
    using that by (rule Adam_step_skip_step_of)
next
  assume h: "\<not> tensor_bool fi \<and> raised (Adam_step None (Some fi) w) = None \<and> grad_of w p \<noteq> None
        \<and> count_list (concat (map g_params (param_groups w))) p = 1"
  then obtain u w' where ret: "for_each (step_group fi) (param_groups w) () w = Return u w'"
    and w': "world_of (Adam_step None (Some fi) w) = w'"
    by (auto elim: Adam_step_returns)
  show "step_of (world_of (Adam_step None (Some fi) w)) p = step_of w p + 1"
    using step_groups_step_of[OF ret, of p] h w' by (simp add: count_list_filter)
next
  assume "grad_of w p = None \<or> (\<forall>grp\<in>set (param_groups w). p \<notin> set (g_params grp))"
  then have "(\<forall>grp\<in>set (param_groups w). p \<notin> set (g_params grp)) \<or> grad_of w p = None"
    by auto
  then have "own p (world_of (Adam_step None (Some fi) w)) = own p w"
    by (rule Adam_step_own)
  then show "step_of (world_of (Adam_step None (Some fi) w)) p = step_of w p"
    by (rule step_of_own)
qed

theorem step_count_increments_witness:
  "\<not> tensor_bool (scalar 0) \<and> raised (Adam_step None (Some (scalar 0)) scenario) = None
   \<and> grad_of scenario 0 \<noteq> None
   \<and> count_list (concat (map g_params (param_groups scenario))) 0 = 1
   \<and> step_of (world_of (Adam_step None (Some (scalar 0)) scenario)) 0 = step_of scenario 0 + 1
   \<and> grad_of scenario_without_gradient 0 = None
   \<and> step_of (world_of (Adam_step None (Some (scalar 0)) scenario_without_gradient)) 0
       = step_of scenario_without_gradient 0
   \<and> tensor_bool (scalar 1)
   \<and> step_of (world_of (Adam_step None (Some (scalar 1)) scenario)) 0 = step_of scenario 0"
  using step_count_increments[of scenario 0 "[]" "scalar 0"] scenario_returns
    step_count_increments[of scenario_without_gradient 0 "[]" "scalar 0"]
    step_count_increments[of scenario 0 "[]" "scalar 1"]
  by (simp add: scenario_def scenario_without_gradient_def tensor_bool_def scalar_def)

theorem step_count_without_gradient:
  "\<not> tensor_bool (scalar 0)
   \<and> raised (Adam_step None (Some (scalar 0)) scenario_without_gradient) = None
   \<and> step_of (world_of (Adam_step None (Some (scalar 0)) scenario_without_gradient)) 0
       = step_of scenario_without_gradient 0"
  by (simp add: step_defs scenario_def scenario_without_gradient_def step_of_def)

subsection \<open>The update of one parameter\<close>

lemma body_update:
  assumes unset: "\<not> tensor_bool found_inf"
    and i: "i < length grads" "i < length exp_avgs" "i < length exp_avg_sqs"
      "i < length state_steps" "amsgrad \<longrightarrow> i < length max_exp_avg_sqs"
    and refs: "exp_avgs ! i = ExpAvg p" "exp_avg_sqs ! i = ExpAvgSq p"
      "amsgrad \<longrightarrow> max_exp_avg_sqs ! i = MaxExpAvgSq p"
    and t: "state_steps ! i = t" "t \<noteq> 0"
    and ret: "adam_step_body grads exp_avgs exp_avg_sqs max_exp_avg_sqs state_steps amsgrad
       beta1 beta2 lr weight_decay eps found_inf (i, Param p) u w = Return u' w'"
    and g': "g' = (if weight_decay \<noteq> 0 then add (grads ! i) (heap w (Param p)) weight_decay
                   else grads ! i)"
  shows "heap w' (ExpAvg p) = add (mul (heap w (ExpAvg p)) beta1) g' (1 - beta1)"
    and "heap w' (ExpAvgSq p) = addcmul (mul (heap w (ExpAvgSq p)) beta2) g' g' (1 - beta2)"
    and "amsgrad \<Longrightarrow> heap w' (MaxExpAvgSq p)
           = maximum (heap w (MaxExpAvgSq p)) (heap w' (ExpAvgSq p))"
    and "heap w' (Param p) =
           addcdiv (heap w (Param p)) (heap w' (ExpAvg p))
             (add_scalar (div_scalar
                (tsqrt (if amsgrad then heap w' (MaxExpAvgSq p) else heap w' (ExpAvgSq p)))
                (sqrt (1 - beta2 ^ t))) eps)
             (- (lr / (1 - beta1 ^ t)))"
    and "state w' = state w"
  using assms
  by (auto simp: adam_step_body_def index_def Let_def tensor_where_def split: if_splits)

lemma count_list_one_split:
  assumes "count_list xs x = 1"
  shows "\<exists>ys zs. xs = ys @ x # zs \<and> x \<notin> set ys \<and> x \<notin> set zs"
  using assms
proof (induction xs)
  case Nil
  then show ?case by simp
next
  case (Cons a xs)
  show ?case
  proof (cases "a = x")
    case True
    with Cons.prems have "count_list xs x = 0" by simp
    then have "x \<notin> set xs" by (simp add: count_list_0_iff)
    with True show ?thesis by (intro exI[of _ "[]"] exI[of _ xs]) simp
  next
    case False
    with Cons.prems have "count_list xs x = 1" by simp
    from Cons.IH[OF this] obtain ys zs where "xs = ys @ x # zs" "x \<notin> set ys" "x \<notin> set zs"
      by blast
    with False show ?thesis by (intro exI[of _ "a # ys"] exI[of _ zs]) simp
  qed
qed

lemma count_list_append: "count_list (xs @ ys) x = count_list xs x + count_list ys x"
  by (induction xs) auto

lemma count_concat_one_split:
  assumes "count_list (concat (map f gs)) x = 1"
  shows "\<exists>gs1 grp gs2. gs = gs1 @ grp # gs2 \<and> count_list (f grp) x = 1
           \<and> (\<forall>h\<in>set gs1. x \<notin> set (f h)) \<and> (\<forall>h\<in>set gs2. x \<notin> set (f h))"
  using assms
proof (induction gs)
  case Nil
  then show ?case by simp
next
  case (Cons a gs)
  from Cons.prems have sum: "count_list (f a) x + count_list (concat (map f gs)) x = 1"
    by (simp add: count_list_append)
  show ?case
  proof (cases "count_list (f a) x = 0")
    case True
    with sum have "count_list (concat (map f gs)) x = 1" by simp
    from Cons.IH[OF this] obtain gs1 grp gs2 where
      "gs = gs1 @ grp # gs2" "count_list (f grp) x = 1"
      "\<forall>h\<in>set gs1. x \<notin> set (f h)" "\<forall>h\<in>set gs2. x \<notin> set (f h)"
      by blast
    moreover have "x \<notin> set (f a)" using True by (simp add: count_list_0_iff)
    ultimately show ?thesis
      by (intro exI[of _ "a # gs1"] exI[of _ grp] exI[of _ gs2]) simp
  next
    case False
    with sum have one: "count_list (f a) x = 1" and "count_list (concat (map f gs)) x = 0"
      by simp_all
    then have "x \<notin> set (concat (map f gs))" by (simp add: count_list_0_iff)
    then have "\<forall>h\<in>set gs. x \<notin> set (f h)" by auto
    with one show ?thesis
      by (intro exI[of _ "[]"] exI[of _ a] exI[of _ gs]) simp
  qed
qed

lemma enumerate_split:
  "zip [0..<length (as @ a # bs)] (as @ a # bs) =
     zip [0..<length as] as @ (length as, a) # zip [Suc (length as)..<length as + Suc (length bs)] bs"
proof -
  have len: "length (as @ a # bs) = length as + Suc (length bs)" by simp
  have e1: "[0..<length as + Suc (length bs)]
      = [0..<length as] @ [length as..<length as + Suc (length bs)]"
    by (rule upt_add_eq_append) simp
  have e2: "[length as..<length as + Suc (length bs)]
      = length as # [Suc (length as)..<length as + Suc (length bs)]"
    by (rule upt_conv_Cons) simp
  have z: "zip ([0..<length as] @ (length as # R)) (as @ a # bs)
      = zip [0..<length as] as @ (length as, a) # zip R bs" for R
    by (subst zip_append) simp_all
  show ?thesis
    unfolding len e1 e2 by (rule z)
qed

lemma views_own:
  assumes "own p v = own p w"
  shows "exp_avg_of v p = exp_avg_of w p" "exp_avg_sq_of v p = exp_avg_sq_of w p"
    "max_exp_avg_sq_of v p = max_exp_avg_sq_of w p" "step_of v p = step_of w p"
    "heap v (Param p) = heap w (Param p)" "state v p = state w p"
    "heap v (ExpAvg p) = heap w (ExpAvg p)" "heap v (ExpAvgSq p) = heap w (ExpAvgSq p)"
    "heap v (MaxExpAvgSq p) = heap w (MaxExpAvgSq p)"
  using assms
  by (auto simp: own_def exp_avg_of_def exp_avg_sq_of_def max_exp_avg_sq_of_def step_of_def
      split: option.splits)

lemma visit_self:
  assumes "grad_of w p = Some g" "\<not> tensor_bool fi" "visit_param grp fi p c w = Return c' w'"
  shows "step_of w' p = step_of w p + 1" "state w' p \<noteq> None"
    "heap w' (ExpAvg p) = exp_avg_of w p" "heap w' (ExpAvgSq p) = exp_avg_sq_of w p"
    "g_amsgrad grp \<Longrightarrow> heap w' (MaxExpAvgSq p) = max_exp_avg_sq_of w p"
    "heap w' (Param p) = heap w (Param p)"
    "c_grads c' = c_grads c @ [g]" "c_state_steps c' = c_state_steps c @ [step_of w p + 1]"
  using assms
  by (auto simp: visit_param_def init_state_def Let_def new_state_def step_of_def exp_avg_of_def
      exp_avg_sq_of_def max_exp_avg_sq_of_def split: option.splits if_splits)

lemma visit_loop_prefix:
  assumes "for_each (visit_param grp fi) ps c w = Return c' w'"
  shows "\<exists>gs ts. c_grads c' = c_grads c @ gs \<and> c_state_steps c' = c_state_steps c @ ts"
  using assms
proof (induction ps arbitrary: c w)
  case Nil
  then show ?case by simp
next
  case (Cons p ps)
  from Cons.prems obtain c1 w1 where
    v: "visit_param grp fi p c w = Return c1 w1"
    and rest: "for_each (visit_param grp fi) ps c1 w1 = Return c' w'"
    by (auto split: result.splits)
  from v have "\<exists>gs ts. c_grads c1 = c_grads c @ gs \<and> c_state_steps c1 = c_state_steps c @ ts"
    by (auto simp: visit_param_def Let_def split: option.splits if_splits)
  with Cons.IH[OF rest] show ?case by auto
qed

lemma body_loop_own:
  assumes lists: "lists_for amsgrad qs c"
    and ips: "\<forall>ip\<in>set ips. fst ip < length qs \<and> snd ip = Param (qs ! fst ip) \<and> qs ! fst ip \<noteq> p"
  shows "own p (world_of (for_each (adam_step_body (c_grads c) (c_exp_avgs c) (c_exp_avg_sqs c)
       (c_max_exp_avg_sqs c) (c_state_steps c) amsgrad beta1 beta2 lr weight_decay eps found_inf)
       ips u w)) = own p w"
proof (rule for_each_world)
  fix ip :: "nat \<times> ref" and acc :: unit and v
  assume mem: "ip \<in> set ips"
  with ips have i: "fst ip < length qs" "snd ip = Param (qs ! fst ip)" "qs ! fst ip \<noteq> p"
    by auto
  have refs: "c_exp_avgs c ! fst ip = ExpAvg (qs ! fst ip)"
    "c_exp_avg_sqs c ! fst ip = ExpAvgSq (qs ! fst ip)"
    "amsgrad \<longrightarrow> c_max_exp_avg_sqs c ! fst ip = MaxExpAvgSq (qs ! fst ip)"
    using i(1) lists by (simp_all add: lists_for_def)
  show "own p (world_of (adam_step_body (c_grads c) (c_exp_avgs c) (c_exp_avg_sqs c)
       (c_max_exp_avg_sqs c) (c_state_steps c) amsgrad beta1 beta2 lr weight_decay eps found_inf
       ip acc v)) = own p v"
    by (rule body_own[OF i(2) refs i(3)])
qed

lemma for_each_Return_split:
  assumes "for_each body (xs @ x # ys) acc w = Return acc' w'"
  obtains a1 w1 a2 w2 where "for_each body xs acc w = Return a1 w1"
    "body x a1 w1 = Return a2 w2" "for_each body ys a2 w2 = Return acc' w'"
  using assms
  by (auto simp: for_each_append split: result.splits)

lemma pre_indices:
  assumes "p \<notin> set as"
  shows "\<forall>ip\<in>set (zip [0..<length (map Param as)] (map Param as)).
           fst ip < length (as @ p # bs) \<and> snd ip = Param ((as @ p # bs) ! fst ip)
           \<and> (as @ p # bs) ! fst ip \<noteq> p"
proof
  fix ip assume "ip \<in> set (zip [0..<length (map Param as)] (map Param as))"
  then obtain k where k: "k < length as" "ip = (k, Param (as ! k))"
    by (auto simp: set_zip)
  then have "as ! k \<in> set as" by simp
  with assms have "as ! k \<noteq> p" by auto
  with k show "fst ip < length (as @ p # bs) \<and> snd ip = Param ((as @ p # bs) ! fst ip)
           \<and> (as @ p # bs) ! fst ip \<noteq> p"
    by (simp add: nth_append)
qed

lemma post_indices:
  assumes "p \<notin> set bs"
  shows "\<forall>ip\<in>set (zip [Suc (length (map Param as))..<length (map Param as) + Suc (length (map Param bs))]
                       (map Param bs)).
           fst ip < length (as @ p # bs) \<and> snd ip = Param ((as @ p # bs) ! fst ip)
           \<and> (as @ p # bs) ! fst ip \<noteq> p"
proof
  fix ip
  assume "ip \<in> set (zip [Suc (length (map Param as))..<length (map Param as) + Suc (length (map Param bs))]
                       (map Param bs))"
  then obtain k where k: "k < length bs" "ip = (Suc (length as) + k, Param (bs ! k))"
    by (auto simp del: upt_Suc simp: set_zip)
  then have "bs ! k \<in> set bs" by simp
  with assms have "bs ! k \<noteq> p" by auto
  with k show "fst ip < length (as @ p # bs) \<and> snd ip = Param ((as @ p # bs) ! fst ip)
           \<and> (as @ p # bs) ! fst ip \<noteq> p"
    by (simp add: nth_append)
qed

lemma step_group_update:
  assumes unset: "\<not> tensor_bool fi"
    and ret: "step_group fi grp u w = Return u' w'"
    and split: "g_params grp = ps1 @ p # ps2" "p \<notin> set ps1" "p \<notin> set ps2"
    and grad: "grad_of w p = Some g"
    and g': "g' = (if g_weight_decay grp \<noteq> 0
                   then add g (heap w (Param p)) (g_weight_decay grp) else g)"
    and t: "t = step_of w p + 1"
  shows "step_of w' p = t"
    and "state w' p \<noteq> None"
    and "heap w' (ExpAvg p) = add (mul (exp_avg_of w p) (fst (g_betas grp))) g' (1 - fst (g_betas grp))"
    and "heap w' (ExpAvgSq p)
           = addcmul (mul (exp_avg_sq_of w p) (snd (g_betas grp))) g' g' (1 - snd (g_betas grp))"
    and "g_amsgrad grp \<Longrightarrow> heap w' (MaxExpAvgSq p)
           = maximum (max_exp_avg_sq_of w p) (heap w' (ExpAvgSq p))"
    and "heap w' (Param p) =
           addcdiv (heap w (Param p)) (heap w' (ExpAvg p))
             (add_scalar (div_scalar
                (tsqrt (if g_amsgrad grp then heap w' (MaxExpAvgSq p) else heap w' (ExpAvgSq p)))
                (sqrt (1 - snd (g_betas grp) ^ t))) (g_eps grp))
             (- (g_lr grp / (1 - fst (g_betas grp) ^ t)))"
proof -
  let ?has = "\<lambda>q. grad_of w q \<noteq> None"
  let ?qs1 = "filter ?has ps1" and ?qs2 = "filter ?has ps2"
  let ?qs = "?qs1 @ p # ?qs2"
  let ?i = "length ?qs1"
  let ?am = "g_amsgrad grp"
  from ret obtain c w3 where
    loop: "for_each (visit_param grp fi) (g_params grp) no_lists w = Return c w3"
    and py: "adam_step_py (c_params_with_grad c) (c_grads c) (c_exp_avgs c) (c_exp_avg_sqs c)
            (c_max_exp_avg_sqs c) (c_state_steps c) ?am (fst (g_betas grp))
            (snd (g_betas grp)) (g_lr grp) (g_weight_decay grp) (g_eps grp) fi w3 = Return u' w'"
    by (auto simp: step_group_def split: result.splits)
  from loop obtain c1 w1 c2 w2 where
    L1: "for_each (visit_param grp fi) ps1 no_lists w = Return c1 w1"
    and V: "visit_param grp fi p c1 w1 = Return c2 w2"
    and L2: "for_each (visit_param grp fi) ps2 c2 w2 = Return c w3"
    unfolding split(1) by (rule for_each_Return_split)
  have lists1: "lists_for ?am ?qs1 c1"
    using visit_loop_lists[OF no_lists_for L1] by simp
  have lists: "lists_for ?am ?qs c"
    using visit_loop_lists[OF no_lists_for loop] grad by (simp add: split(1))
  have g1: "grad_of w1 = grad_of w"
    using visit_loop_frame(1)[of grp fi ps1 no_lists w] L1 by simp
  have o1: "own p w1 = own p w"
    using visit_loop_own[of p ps1 w grp fi no_lists] split(2) L1 by simp
  have o3: "own p w3 = own p w2"
    using visit_loop_own[of p ps2 w2 grp fi c2] split(3) L2 by simp
  have gp1: "grad_of w1 p = Some g" using grad g1 by simp
  note vs = visit_self[OF gp1 unset V]
  have steps2: "c_state_steps c2 = c_state_steps c1 @ [t]"
    using vs(8) views_own(4)[OF o1] t by simp
  have grads2: "c_grads c2 = c_grads c1 @ [g]" by (rule vs(7))
  from visit_loop_prefix[OF L2] obtain gs ts where
    pre: "c_grads c = c_grads c2 @ gs" "c_state_steps c = c_state_steps c2 @ ts"
    by blast
  have len1: "length (c_grads c1) = ?i" "length (c_state_steps c1) = ?i"
    using lists1 by (simp_all add: lists_for_def)
  have at_i: "c_grads c ! ?i = g" "c_state_steps c ! ?i = t"
    using pre grads2 steps2 len1 by (simp_all add: nth_append)
  have in_range: "?i < length (c_grads c)" "?i < length (c_exp_avgs c)"
    "?i < length (c_exp_avg_sqs c)" "?i < length (c_state_steps c)"
    "?am \<longrightarrow> ?i < length (c_max_exp_avg_sqs c)"
    using lists by (simp_all add: lists_for_def)
  have refs: "c_exp_avgs c ! ?i = ExpAvg p" "c_exp_avg_sqs c ! ?i = ExpAvgSq p"
    "?am \<longrightarrow> c_max_exp_avg_sqs c ! ?i = MaxExpAvgSq p"
    using lists by (simp_all add: lists_for_def nth_append)
  let ?body = "adam_step_body (c_grads c) (c_exp_avgs c) (c_exp_avg_sqs c) (c_max_exp_avg_sqs c)
      (c_state_steps c) ?am (fst (g_betas grp)) (snd (g_betas grp)) (g_lr grp)
      (g_weight_decay grp) (g_eps grp) fi"
  let ?pre = "zip [0..<length (map Param ?qs1)] (map Param ?qs1)"
  let ?post = "zip [Suc (length (map Param ?qs1))..<length (map Param ?qs1) + Suc (length (map Param ?qs2))]
      (map Param ?qs2)"
  have params: "c_params_with_grad c = map Param ?qs1 @ Param p # map Param ?qs2"
    using lists by (simp add: lists_for_def)
  have enum: "zip [0..<length (c_params_with_grad c)] (c_params_with_grad c)
      = ?pre @ (?i, Param p) # ?post"
    unfolding params using enumerate_split[of "map Param ?qs1" "Param p" "map Param ?qs2"] by simp
  from py obtain ua wa ub wb where
    P1: "for_each ?body ?pre () w3 = Return ua wa"
    and B: "?body (?i, Param p) ua wa = Return ub wb"
    and P2: "for_each ?body ?post ub wb = Return u' w'"
    unfolding adam_step_py_def enum by (rule for_each_Return_split)
  have p1: "p \<notin> set ?qs1" and p2: "p \<notin> set ?qs2" using split(2,3) by auto
  have pre_ok: "\<forall>ip\<in>set ?pre. fst ip < length ?qs \<and> snd ip = Param (?qs ! fst ip) \<and> ?qs ! fst ip \<noteq> p"
    by (rule pre_indices[OF p1])
  have post_ok: "\<forall>ip\<in>set ?post. fst ip < length ?qs \<and> snd ip = Param (?qs ! fst ip) \<and> ?qs ! fst ip \<noteq> p"
    by (rule post_indices[OF p2])
  have oa: "own p wa = own p w3"
    using body_loop_own[OF lists pre_ok, of "fst (g_betas grp)" "snd (g_betas grp)" "g_lr grp"
        "g_weight_decay grp" "g_eps grp" fi "()" w3] P1 by simp
  have ob: "own p w' = own p wb"
    using body_loop_own[OF lists post_ok, of "fst (g_betas grp)" "snd (g_betas grp)" "g_lr grp"
        "g_weight_decay grp" "g_eps grp" fi ub wb] P2 by simp
  have o2a: "own p wa = own p w2" using oa o3 by simp
  have ha: "heap wa (Param p) = heap w (Param p)" "heap wa (ExpAvg p) = exp_avg_of w p"
    "heap wa (ExpAvgSq p) = exp_avg_sq_of w p"
    "?am \<Longrightarrow> heap wa (MaxExpAvgSq p) = max_exp_avg_sq_of w p"
    using views_own(5,7,8,9)[OF o2a] vs(3,4,5,6) views_own(1,2,3,5)[OF o1] by simp_all
  have tnz: "t \<noteq> 0" using t by simp
  have ga: "g' = (if g_weight_decay grp \<noteq> 0
                  then add (c_grads c ! ?i) (heap wa (Param p)) (g_weight_decay grp)
                  else c_grads c ! ?i)"
    using g' at_i(1) ha(1) by simp
  note bu = body_update[OF unset in_range refs at_i(2) tnz B ga]
  have sb: "state wb p = state w2 p"
    using bu(5) views_own(6)[OF o2a] by simp
  show "step_of w' p = t"
    using views_own(6)[OF ob] sb vs(1) views_own(4)[OF o1] t by (simp add: step_of_def)
  show "state w' p \<noteq> None"
    using views_own(6)[OF ob] sb vs(2) by simp
  show "heap w' (ExpAvg p) = add (mul (exp_avg_of w p) (fst (g_betas grp))) g' (1 - fst (g_betas grp))"
    using views_own(7)[OF ob] bu(1) ha(2) by simp
  show "heap w' (ExpAvgSq p)
           = addcmul (mul (exp_avg_sq_of w p) (snd (g_betas grp))) g' g' (1 - snd (g_betas grp))"
    using views_own(8)[OF ob] bu(2) ha(3) by simp
  show "heap w' (MaxExpAvgSq p) = maximum (max_exp_avg_sq_of w p) (heap w' (ExpAvgSq p))"
    if "?am"
    using views_own(8,9)[OF ob] bu(3)[OF that] ha(4)[OF that] by simp
  show "heap w' (Param p) =
           addcdiv (heap w (Param p)) (heap w' (ExpAvg p))
             (add_scalar (div_scalar
                (tsqrt (if g_amsgrad grp then heap w' (MaxExpAvgSq p) else heap w' (ExpAvgSq p)))
                (sqrt (1 - snd (g_betas grp) ^ t))) (g_eps grp))
             (- (g_lr grp / (1 - fst (g_betas grp) ^ t)))"
    using views_own(5,7,8,9)[OF ob] bu(4) ha(1) by simp
qed

lemma numel_ops [simp]:
  "numel (zeros_like t) = numel t"
  "numel (mul t c) = numel t"
  "numel (add t other alpha) = min (numel t) (numel other)"
  "numel (addcmul t t1 t2 c) = min (numel t) (min (numel t1) (numel t2))"
  "numel (addcdiv t t1 t2 c) = min (numel t) (min (numel t1) (numel t2))"
  "numel (maximum a b) = min (numel a) (numel b)"
  "numel (tsqrt t) = numel t"
  "numel (div_scalar t c) = numel t"
  "numel (add_scalar t c) = numel t"
  by (simp_all add: numel_def addcmul_def addcdiv_def)

lemma nth_ops:
  "j < numel t \<Longrightarrow> elems (mul t c) ! j = elems t ! j * c"
  "j < numel t \<Longrightarrow> j < numel other \<Longrightarrow>
     elems (add t other alpha) ! j = elems t ! j + alpha * elems other ! j"
  "j < numel t \<Longrightarrow> j < numel t1 \<Longrightarrow> j < numel t2 \<Longrightarrow>
     elems (addcmul t t1 t2 c) ! j = elems t ! j + c * (elems t1 ! j * elems t2 ! j)"
  "j < numel t \<Longrightarrow> j < numel t1 \<Longrightarrow> j < numel t2 \<Longrightarrow>
     elems (addcdiv t t1 t2 c) ! j = elems t ! j + c * (elems t1 ! j / elems t2 ! j)"
  "j < numel a \<Longrightarrow> j < numel b \<Longrightarrow> elems (maximum a b) ! j = max (elems a ! j) (elems b ! j)"
  "j < numel t \<Longrightarrow> elems (tsqrt t) ! j = sqrt (elems t ! j)"
  "j < numel t \<Longrightarrow> elems (div_scalar t c) ! j = elems t ! j / c"
  "j < numel t \<Longrightarrow> elems (add_scalar t c) ! j = elems t ! j + c"
  by (simp_all add: numel_def addcmul_def addcdiv_def)

text \<open>The tensors the code computes for one parameter are, element by element, what the
  specification's update rule gives.\<close>

lemma update_elementwise:
  fixes x g m v vmax :: tensor
  assumes lens: "numel g = numel x" "numel m = numel x" "numel v = numel x"
    "amsgrad \<longrightarrow> numel vmax = numel x"
    and j: "j < numel x"
    and g': "g' = (if wd \<noteq> 0 then add g x wd else g)"
    and m': "m' = add (mul m b1) g' (1 - b1)"
    and v': "v' = addcmul (mul v b2) g' g' (1 - b2)"
    and mx': "mx' = maximum vmax v'"
    and x': "x' = addcdiv x m'
                (add_scalar (div_scalar (tsqrt (if amsgrad then mx' else v')) (sqrt (1 - b2 ^ t))) eps)
                (- (lr / (1 - b1 ^ t)))"
  shows "numel m' = numel x" "numel v' = numel x" "amsgrad \<Longrightarrow> numel mx' = numel x"
    "numel x' = numel x"
    "elems m' ! j = spec_first_moment b1 (elems m ! j) (spec_grad wd (elems g ! j) (elems x ! j))"
    "elems v' ! j = spec_second_moment b2 (elems v ! j) (spec_grad wd (elems g ! j) (elems x ! j))"
    "amsgrad \<Longrightarrow> elems mx' ! j = max (elems vmax ! j) (elems v' ! j)"
    "elems x' ! j = spec_parameter lr b1 b2 eps t (elems x ! j) (elems m' ! j)
        (if amsgrad then max (elems vmax ! j) (elems v' ! j) else elems v' ! j)"
proof -
  have ng: "numel g' = numel x" using lens g' by simp
  have gj: "elems g' ! j = spec_grad wd (elems g ! j) (elems x ! j)"
    using lens j g' by (simp del: elems_ops add: nth_ops spec_grad_def)
  show nm: "numel m' = numel x" using lens ng m' by simp
  show nv: "numel v' = numel x" using lens ng v' by simp
  show nmx: "numel mx' = numel x" if amsgrad using lens nv mx' that by simp
  show "numel x' = numel x" using nm nv nmx x' by simp
  show mj: "elems m' ! j = spec_first_moment b1 (elems m ! j) (spec_grad wd (elems g ! j) (elems x ! j))"
    using lens ng j m' gj by (simp del: elems_ops add: nth_ops spec_first_moment_def)
  show vj: "elems v' ! j = spec_second_moment b2 (elems v ! j) (spec_grad wd (elems g ! j) (elems x ! j))"
    using lens ng j v' gj by (simp del: elems_ops add: nth_ops spec_second_moment_def power2_eq_square)
  show mxj: "elems mx' ! j = max (elems vmax ! j) (elems v' ! j)" if amsgrad
    using lens nv j mx' that by (simp del: elems_ops add: nth_ops)
  show "elems x' ! j = spec_parameter lr b1 b2 eps t (elems x ! j) (elems m' ! j)
        (if amsgrad then max (elems vmax ! j) (elems v' ! j) else elems v' ! j)"
  proof (cases amsgrad)
    case True
    then show ?thesis
      using nm nv nmx j x' mxj by (simp del: elems_ops add: nth_ops spec_parameter_def)
  next
    case False
    then show ?thesis
      using nm nv j x' by (simp del: elems_ops add: nth_ops spec_parameter_def)
  qed
qed

lemma Adam_step_update:
  assumes unset: "\<not> tensor_bool fi"
    and ret: "raised (Adam_step None (Some fi) w) = None"
    and grp: "grp \<in> set (param_groups w)" "p \<in> set (g_params grp)"
    and once: "count_list (concat (map g_params (param_groups w))) p = 1"
    and grad: "grad_of w p = Some g"
    and g': "g' = (if g_weight_decay grp \<noteq> 0
                   then add g (heap w (Param p)) (g_weight_decay grp) else g)"
    and t: "t = step_of w p + 1"
    and w': "w' = world_of (Adam_step None (Some fi) w)"
  shows "step_of w' p = t"
    and "state w' p \<noteq> None"
    and "heap w' (ExpAvg p) = add (mul (exp_avg_of w p) (fst (g_betas grp))) g' (1 - fst (g_betas grp))"
    and "heap w' (ExpAvgSq p)
           = addcmul (mul (exp_avg_sq_of w p) (snd (g_betas grp))) g' g' (1 - snd (g_betas grp))"
    and "g_amsgrad grp \<Longrightarrow> heap w' (MaxExpAvgSq p)
           = maximum (max_exp_avg_sq_of w p) (heap w' (ExpAvgSq p))"
    and "heap w' (Param p) =
           addcdiv (heap w (Param p)) (heap w' (ExpAvg p))
             (add_scalar (div_scalar
                (tsqrt (if g_amsgrad grp then heap w' (MaxExpAvgSq p) else heap w' (ExpAvgSq p)))
                (sqrt (1 - snd (g_betas grp) ^ t))) (g_eps grp))
             (- (g_lr grp / (1 - fst (g_betas grp) ^ t)))"
proof -
  from count_concat_one_split[OF once] obtain gs1 grp0 gs2 where
    gs: "param_groups w = gs1 @ grp0 # gs2" and c0: "count_list (g_params grp0) p = 1"
    and out1: "\<forall>h\<in>set gs1. p \<notin> set (g_params h)" and out2: "\<forall>h\<in>set gs2. p \<notin> set (g_params h)"
    by blast
  have "grp = grp0" using grp gs out1 out2 by auto
  with gs c0 have gs': "param_groups w = gs1 @ grp # gs2" and c: "count_list (g_params grp) p = 1"
    by simp_all
  from count_list_one_split[OF c] obtain ps1 ps2 where
    ps: "g_params grp = ps1 @ p # ps2" "p \<notin> set ps1" "p \<notin> set ps2"
    by blast
  from ret obtain u wl where
    loop: "for_each (step_group fi) (param_groups w) () w = Return u wl"
    and wl: "world_of (Adam_step None (Some fi) w) = wl"
    by (rule Adam_step_returns)
  from loop obtain a1 w1 a2 w2 where
    G1: "for_each (step_group fi) gs1 () w = Return a1 w1"
    and G: "step_group fi grp a1 w1 = Return a2 w2"
    and G2: "for_each (step_group fi) gs2 a2 w2 = Return u wl"
    unfolding gs' by (rule for_each_Return_split)
  have o1: "own p w1 = own p w"
    using step_groups_own[of gs1 p w fi "()"] out1 G1 by simp
  have g1: "grad_of w1 p = Some g"
    using step_groups_frame(1)[of fi gs1 "()" w] G1 grad by simp
  have o2: "own p w' = own p w2"
    using step_groups_own[of gs2 p w2 fi a2] out2 G2 w' wl by simp
  have g1': "g' = (if g_weight_decay grp \<noteq> 0
                   then add g (heap w1 (Param p)) (g_weight_decay grp) else g)"
    using g' views_own(5)[OF o1] by simp
  have t1: "t = step_of w1 p + 1" using t views_own(4)[OF o1] by simp
  note up = step_group_update[OF unset G ps g1 g1' t1]
  show "step_of w' p = t" using up(1) views_own(4)[OF o2] by simp
  show "state w' p \<noteq> None" using up(2) views_own(6)[OF o2] by simp
  show "heap w' (ExpAvg p) = add (mul (exp_avg_of w p) (fst (g_betas grp))) g' (1 - fst (g_betas grp))"
    using up(3) views_own(7)[OF o2] views_own(1)[OF o1] by simp
  show "heap w' (ExpAvgSq p)
           = addcmul (mul (exp_avg_sq_of w p) (snd (g_betas grp))) g' g' (1 - snd (g_betas grp))"
    using up(4) views_own(8)[OF o2] views_own(2)[OF o1] by simp
  show "heap w' (MaxExpAvgSq p) = maximum (max_exp_avg_sq_of w p) (heap w' (ExpAvgSq p))"
    if "g_amsgrad grp"
    using up(5)[OF that] views_own(8,9)[OF o2] views_own(3)[OF o1] by simp
  show "heap w' (Param p) =
           addcdiv (heap w (Param p)) (heap w' (ExpAvg p))
             (add_scalar (div_scalar
                (tsqrt (if g_amsgrad grp then heap w' (MaxExpAvgSq p) else heap w' (ExpAvgSq p)))
                (sqrt (1 - snd (g_betas grp) ^ t))) (g_eps grp))
             (- (g_lr grp / (1 - fst (g_betas grp) ^ t)))"
    using up(6) views_own(5,7,8,9)[OF o2] views_own(5)[OF o1] by simp
qed

subsection \<open>The update rule\<close>

lemma update_rule_elementwise:
  assumes "\<not> tensor_bool found_inf"
    and "raised (Adam_step None (Some found_inf) w) = None"
    and "grp \<in> set (param_groups w)" and "p \<in> set (g_params grp)"
    and "count_list (concat (map g_params (param_groups w))) p = 1"
    and "grad_of w p = Some g"
    and "numel g = numel (heap w (Param p))"
    and "numel (exp_avg_of w p) = numel (heap w (Param p))"
    and "numel (exp_avg_sq_of w p) = numel (heap w (Param p))"
    and "g_amsgrad grp \<longrightarrow> numel (max_exp_avg_sq_of w p) = numel (heap w (Param p))"
    and "j < numel (heap w (Param p))"
    and "w' = world_of (Adam_step None (Some found_inf) w)"
  shows "step_of w' p = step_of w p + 1
     \<and> numel (heap w' (Param p)) = numel (heap w (Param p))
     \<and> elems (exp_avg_of w' p) ! j =
         spec_first_moment (fst (g_betas grp)) (elems (exp_avg_of w p) ! j)
           (spec_grad (g_weight_decay grp) (elems g ! j) (elems (heap w (Param p)) ! j))
     \<and> elems (exp_avg_sq_of w' p) ! j =
         spec_second_moment (snd (g_betas grp)) (elems (exp_avg_sq_of w p) ! j)
           (spec_grad (g_weight_decay grp) (elems g ! j) (elems (heap w (Param p)) ! j))
     \<and> (g_amsgrad grp \<longrightarrow>
          elems (max_exp_avg_sq_of w' p) ! j =
            max (elems (max_exp_avg_sq_of w p) ! j) (elems (exp_avg_sq_of w' p) ! j))
     \<and> elems (heap w' (Param p)) ! j =
         spec_parameter (g_lr grp) (fst (g_betas grp)) (snd (g_betas grp)) (g_eps grp)
           (step_of w' p) (elems (heap w (Param p)) ! j) (elems (exp_avg_of w' p) ! j)
           (if g_amsgrad grp then elems (max_exp_avg_sq_of w' p) ! j
            else elems (exp_avg_sq_of w' p) ! j)"
proof -
  define g' where "g' = (if g_weight_decay grp \<noteq> 0
                   then add g (heap w (Param p)) (g_weight_decay grp) else g)"
  define t where "t = step_of w p + 1"
  note up = Adam_step_update[OF assms(1,2,3,4,5,6) g'_def t_def assms(12)]
  have views: "exp_avg_of w' p = heap w' (ExpAvg p)" "exp_avg_sq_of w' p = heap w' (ExpAvgSq p)"
    "max_exp_avg_sq_of w' p = heap w' (MaxExpAvgSq p)"
    using up(2) by (auto simp: exp_avg_of_def exp_avg_sq_of_def max_exp_avg_sq_of_def)
  have mx: "heap w' (MaxExpAvgSq p) = maximum (max_exp_avg_sq_of w p) (heap w' (ExpAvgSq p))"
    if "g_amsgrad grp"
    using up(5)[OF that] .
  have px: "heap w' (Param p) =
           addcdiv (heap w (Param p)) (heap w' (ExpAvg p))
             (add_scalar (div_scalar
                (tsqrt (if g_amsgrad grp
                        then maximum (max_exp_avg_sq_of w p) (heap w' (ExpAvgSq p))
                        else heap w' (ExpAvgSq p)))
                (sqrt (1 - snd (g_betas grp) ^ t))) (g_eps grp))
             (- (g_lr grp / (1 - fst (g_betas grp) ^ t)))"
    using up(6) mx by (cases "g_amsgrad grp") simp_all
  note el = update_elementwise[OF assms(7,8,9,10,11) g'_def up(3) up(4) refl px]
  show ?thesis
    unfolding views up(1)
    using el(4,5,6) el(7,8) mx t_def
    by (cases "g_amsgrad grp") simp_all
qed

text \<open>
  C1. In a call of \<open>step\<close> with the skip signal unset that returns, for a parameter \<open>p\<close>
  with a gradient \<open>g\<close> that stands once in the parameter groups, in group \<open>grp\<close>: the step
  count \<open>t\<close> after the call is one more than before (so at least 1), and every element of
  the first moment, the second moment, the running maximum (under amsgrad) and the
  parameter is what the update rule of the specification gives from the elements before
  the call, with the weight decay folded into the gradient, the step size
  \<open>lr / (1 - beta1 ^ t)\<close> and the running maximum as the chosen second moment under
  amsgrad, the second moment otherwise. The tensors of \<open>p\<close> have one number of elements.
\<close>

theorem adam_update_rule:
  assumes "\<not> tensor_bool found_inf"
    and "raised (Adam_step None (Some found_inf) w) = None"
    and "grp \<in> set (param_groups w)" and "p \<in> set (g_params grp)"
    and "count_list (concat (map g_params (param_groups w))) p = 1"
    and "grad_of w p = Some g"
    and "numel g = numel (heap w (Param p))"
    and "numel (exp_avg_of w p) = numel (heap w (Param p))"
    and "numel (exp_avg_sq_of w p) = numel (heap w (Param p))"
    and "g_amsgrad grp \<longrightarrow> numel (max_exp_avg_sq_of w p) = numel (heap w (Param p))"
    and "j < numel (heap w (Param p))"
    and "w' = world_of (Adam_step None (Some found_inf) w)"
  shows "step_of w' p = step_of w p + 1
     \<and> numel (heap w' (Param p)) = numel (heap w (Param p))
     \<and> elems (exp_avg_of w' p) ! j =
         spec_first_moment (fst (g_betas grp)) (elems (exp_avg_of w p) ! j)
           (spec_grad (g_weight_decay grp) (elems g ! j) (elems (heap w (Param p)) ! j))
     \<and> elems (exp_avg_sq_of w' p) ! j =
         spec_second_moment (snd (g_betas grp)) (elems (exp_avg_sq_of w p) ! j)
           (spec_grad (g_weight_decay grp) (elems g ! j) (elems (heap w (Param p)) ! j))
     \<and> (g_amsgrad grp \<longrightarrow>
          elems (max_exp_avg_sq_of w' p) ! j =
            max (elems (max_exp_avg_sq_of w p) ! j) (elems (exp_avg_sq_of w' p) ! j))
     \<and> elems (heap w' (Param p)) ! j =
         spec_parameter (g_lr grp) (fst (g_betas grp)) (snd (g_betas grp)) (g_eps grp)
           (step_of w' p) (elems (heap w (Param p)) ! j) (elems (exp_avg_of w' p) ! j)
           (if g_amsgrad grp then elems (max_exp_avg_sq_of w' p) ! j
            else elems (exp_avg_sq_of w' p) ! j)"
  using assms by (rule update_rule_elementwise)

theorem adam_update_rule_witness:
  "\<not> tensor_bool (scalar 0)
   \<and> raised (Adam_step None (Some (scalar 0)) scenario) = None
   \<and> grad_of scenario 0 = Some (vec [1 / 10])
   \<and> step_of (world_of (Adam_step None (Some (scalar 0)) scenario)) 0 = step_of scenario 0 + 1
   \<and> elems (heap (world_of (Adam_step None (Some (scalar 0)) scenario)) (Param 0)) ! 0 =
       spec_parameter (1 / 1000) (9 / 10) (999 / 1000) (1 / 100000000)
         (step_of (world_of (Adam_step None (Some (scalar 0)) scenario)) 0)
         (elems (heap scenario (Param 0)) ! 0)
         (elems (exp_avg_of (world_of (Adam_step None (Some (scalar 0)) scenario)) 0) ! 0)
         (elems (exp_avg_sq_of (world_of (Adam_step None (Some (scalar 0)) scenario)) 0) ! 0)"
proof -
  let ?grp = "\<lparr>g_params = [0], g_lr = 1 / 1000, g_betas = (9 / 10, 999 / 1000),
               g_eps = 1 / 100000000, g_weight_decay = 0, g_amsgrad = False\<rparr>"
  have h1: "\<not> tensor_bool (scalar 0)" by (simp add: tensor_bool_def scalar_def)
  have h3: "?grp \<in> set (param_groups scenario)" by (simp add: scenario_def)
  have h4: "0 \<in> set (g_params ?grp)" by simp
  have h5: "count_list (concat (map g_params (param_groups scenario))) 0 = 1"
    by (simp add: scenario_def)
  have h6: "grad_of scenario 0 = Some (vec [1 / 10])" by (simp add: scenario_def)
  have h7: "numel (vec [1 / 10]) = numel (heap scenario (Param 0))"
    by (simp add: scenario_def numel_def vec_def)
  have h8: "numel (exp_avg_of scenario 0) = numel (heap scenario (Param 0))"
    by (simp add: scenario_def exp_avg_of_def)
  have h9: "numel (exp_avg_sq_of scenario 0) = numel (heap scenario (Param 0))"
    by (simp add: scenario_def exp_avg_sq_of_def)
  have h10: "g_amsgrad ?grp \<longrightarrow> numel (max_exp_avg_sq_of scenario 0) = numel (heap scenario (Param 0))"
    by simp
  have h11: "0 < numel (heap scenario (Param 0))"
    by (simp add: scenario_def numel_def vec_def)
  from adam_update_rule[OF h1 scenario_returns h3 h4 h5 h6 h7 h8 h9 h10 h11 refl]
  show ?thesis using h1 scenario_returns h6 by simp
qed

subsection \<open>The first step\<close>

lemma scenario_one_step:
  "heap (calls [(grad_of scenario, scalar 0)] scenario) (Param 0) = vec [1 - 10000 / 10000001]"
  "step_of (calls [(grad_of scenario, scalar 0)] scenario) 0 = 1"
  "exp_avg_of (calls [(grad_of scenario, scalar 0)] scenario) 0 = vec [1 / 100]"
  "exp_avg_sq_of (calls [(grad_of scenario, scalar 0)] scenario) 0 = vec [1 / 100000]"
  by (simp_all add: step_defs scenario_def sqrt_first_step step_of_def exp_avg_of_def
      exp_avg_sq_of_def)

lemma scenario_two_steps:
  "heap (calls [(grad_of scenario, scalar 0), (grad_of scenario, scalar 0)] scenario) (Param 0)
     = vec [1 - 10000 / 10000001 - 10000 / 10000001]"
  "step_of (calls [(grad_of scenario, scalar 0), (grad_of scenario, scalar 0)] scenario) 0 = 2"
  by (simp_all add: step_defs scenario_def sqrt_first_step sqrt_second_step step_of_def)

lemma scenario_start:
  "heap scenario (Param 0) = vec [1]" "step_of scenario 0 = 0"
  "exp_avg_of scenario 0 = vec [0]" "exp_avg_sq_of scenario 0 = vec [0]"
  by (simp_all add: scenario_def step_of_def exp_avg_of_def exp_avg_sq_of_def zeros_like_def vec_def)

text \<open>
  C2. The first call of \<open>step\<close> with the skip signal unset takes the step count of a
  parameter from 0 to 1 and is not a no-op: the moments are updated and the parameter
  moves by the update rule with step size \<open>lr / (1 - beta1)\<close>. (The step size 0 of lines
  208 to 211 belongs to a step count that is still 0, which the code only hands to the
  update when the skip signal is set.) In the scenario the first call lowers the
  parameter from 1.0 by a positive amount below lr, and the second call lowers it again
  by a positive amount below lr.
\<close>

theorem first_step_applies_update:
  assumes "\<not> tensor_bool found_inf"
    and "raised (Adam_step None (Some found_inf) w) = None"
    and "grp \<in> set (param_groups w)" and "p \<in> set (g_params grp)"
    and "count_list (concat (map g_params (param_groups w))) p = 1"
    and "grad_of w p = Some g"
    and "numel g = numel (heap w (Param p))"
    and "numel (exp_avg_of w p) = numel (heap w (Param p))"
    and "numel (exp_avg_sq_of w p) = numel (heap w (Param p))"
    and "g_amsgrad grp \<longrightarrow> numel (max_exp_avg_sq_of w p) = numel (heap w (Param p))"
    and "j < numel (heap w (Param p))"
    and "w' = world_of (Adam_step None (Some found_inf) w)"
    and "step_of w p = 0"
  shows "step_of w' p = 1
     \<and> elems (exp_avg_of w' p) ! j =
         spec_first_moment (fst (g_betas grp)) (elems (exp_avg_of w p) ! j)
           (spec_grad (g_weight_decay grp) (elems g ! j) (elems (heap w (Param p)) ! j))
     \<and> elems (exp_avg_sq_of w' p) ! j =
         spec_second_moment (snd (g_betas grp)) (elems (exp_avg_sq_of w p) ! j)
           (spec_grad (g_weight_decay grp) (elems g ! j) (elems (heap w (Param p)) ! j))
     \<and> elems (heap w' (Param p)) ! j =
         elems (heap w (Param p)) ! j
           - (g_lr grp / (1 - fst (g_betas grp))) * elems (exp_avg_of w' p) ! j
             / (sqrt (if g_amsgrad grp then elems (max_exp_avg_sq_of w' p) ! j
                      else elems (exp_avg_sq_of w' p) ! j)
                  / sqrt (1 - snd (g_betas grp)) + g_eps grp)
     \<and> 0 < elems (heap scenario (Param 0)) ! 0
           - elems (heap (calls [(grad_of scenario, scalar 0)] scenario) (Param 0)) ! 0
     \<and> elems (heap scenario (Param 0)) ! 0
           - elems (heap (calls [(grad_of scenario, scalar 0)] scenario) (Param 0)) ! 0
         < g_lr (hd (param_groups scenario))
     \<and> 0 < elems (heap (calls [(grad_of scenario, scalar 0)] scenario) (Param 0)) ! 0
           - elems (heap (calls [(grad_of scenario, scalar 0), (grad_of scenario, scalar 0)]
                      scenario) (Param 0)) ! 0
     \<and> elems (heap (calls [(grad_of scenario, scalar 0)] scenario) (Param 0)) ! 0
           - elems (heap (calls [(grad_of scenario, scalar 0), (grad_of scenario, scalar 0)]
                      scenario) (Param 0)) ! 0
         < g_lr (hd (param_groups scenario))"
proof -
  note el = update_rule_elementwise[OF assms(1-12)]
  have t1: "step_of w' p = 1" using el assms(13) by simp
  have lr: "g_lr (hd (param_groups scenario)) = 1 / 1000" by (simp add: scenario_def)
  have general: "elems (heap w' (Param p)) ! j =
         elems (heap w (Param p)) ! j
           - (g_lr grp / (1 - fst (g_betas grp))) * elems (exp_avg_of w' p) ! j
             / (sqrt (if g_amsgrad grp then elems (max_exp_avg_sq_of w' p) ! j
                      else elems (exp_avg_sq_of w' p) ! j)
                  / sqrt (1 - snd (g_betas grp)) + g_eps grp)"
    using el t1 by (simp add: spec_parameter_def)
  have concrete: "0 < elems (heap scenario (Param 0)) ! 0
           - elems (heap (calls [(grad_of scenario, scalar 0)] scenario) (Param 0)) ! 0"
    "elems (heap scenario (Param 0)) ! 0
           - elems (heap (calls [(grad_of scenario, scalar 0)] scenario) (Param 0)) ! 0
         < g_lr (hd (param_groups scenario))"
    "0 < elems (heap (calls [(grad_of scenario, scalar 0)] scenario) (Param 0)) ! 0
           - elems (heap (calls [(grad_of scenario, scalar 0), (grad_of scenario, scalar 0)]
                      scenario) (Param 0)) ! 0"
    "elems (heap (calls [(grad_of scenario, scalar 0)] scenario) (Param 0)) ! 0
           - elems (heap (calls [(grad_of scenario, scalar 0), (grad_of scenario, scalar 0)]
                      scenario) (Param 0)) ! 0
         < g_lr (hd (param_groups scenario))"
    unfolding scenario_one_step(1) scenario_two_steps(1) scenario_start(1) lr
    by (simp_all add: vec_def)
  show ?thesis
    using t1 el general concrete by simp
qed

theorem first_step_applies_update_witness:
  "\<not> tensor_bool (scalar 0)
   \<and> raised (Adam_step None (Some (scalar 0)) scenario) = None
   \<and> step_of scenario 0 = 0
   \<and> step_of (world_of (Adam_step None (Some (scalar 0)) scenario)) 0 = 1
   \<and> elems (heap (world_of (Adam_step None (Some (scalar 0)) scenario)) (Param 0)) ! 0 =
       elems (heap scenario (Param 0)) ! 0
         - (1 / 1000 / (1 - 9 / 10))
           * elems (exp_avg_of (world_of (Adam_step None (Some (scalar 0)) scenario)) 0) ! 0
           / (sqrt (elems (exp_avg_sq_of (world_of (Adam_step None (Some (scalar 0)) scenario)) 0) ! 0)
                / sqrt (1 - 999 / 1000) + 1 / 100000000)"
proof -
  let ?grp = "\<lparr>g_params = [0], g_lr = 1 / 1000, g_betas = (9 / 10, 999 / 1000),
               g_eps = 1 / 100000000, g_weight_decay = 0, g_amsgrad = False\<rparr>"
  have h1: "\<not> tensor_bool (scalar 0)" by (simp add: tensor_bool_def scalar_def)
  have h3: "?grp \<in> set (param_groups scenario)" by (simp add: scenario_def)
  have h4: "0 \<in> set (g_params ?grp)" by simp
  have h5: "count_list (concat (map g_params (param_groups scenario))) 0 = 1"
    by (simp add: scenario_def)
  have h6: "grad_of scenario 0 = Some (vec [1 / 10])" by (simp add: scenario_def)
  have h7: "numel (vec [1 / 10]) = numel (heap scenario (Param 0))"
    by (simp add: scenario_def numel_def vec_def)
  have h8: "numel (exp_avg_of scenario 0) = numel (heap scenario (Param 0))"
    by (simp add: scenario_def exp_avg_of_def)
  have h9: "numel (exp_avg_sq_of scenario 0) = numel (heap scenario (Param 0))"
    by (simp add: scenario_def exp_avg_sq_of_def)
  have h10: "g_amsgrad ?grp \<longrightarrow> numel (max_exp_avg_sq_of scenario 0) = numel (heap scenario (Param 0))"
    by simp
  have h11: "0 < numel (heap scenario (Param 0))"
    by (simp add: scenario_def numel_def vec_def)
  have h13: "step_of scenario 0 = 0" by (rule scenario_start)
  from first_step_applies_update[OF h1 scenario_returns h3 h4 h5 h6 h7 h8 h9 h10 h11 refl h13]
  show ?thesis using h1 scenario_returns h13 by simp
qed

theorem first_step_changes_parameter:
  "\<not> tensor_bool (scalar 0)
   \<and> step_of scenario 0 = 0
   \<and> step_of (calls [(grad_of scenario, scalar 0)] scenario) 0 = 1
   \<and> heap scenario (Param 0) = vec [1]
   \<and> heap (calls [(grad_of scenario, scalar 0)] scenario) (Param 0) = vec [9990001 / 10000001]
   \<and> heap (calls [(grad_of scenario, scalar 0)] scenario) (Param 0) \<noteq> heap scenario (Param 0)"
  using scenario_one_step(1,2) scenario_start(1,2)
  by (simp add: tensor_bool_def scalar_def vec_def)

subsection \<open>Sparse gradients\<close>

lemma visit_has_max:
  assumes "state (world_of (visit_param grp fi p c w)) x = Some s'"
  shows "(case state w x of None \<Rightarrow> x = p \<and> has_max_exp_avg_sq s' = g_amsgrad grp
          | Some s \<Rightarrow> has_max_exp_avg_sq s' = has_max_exp_avg_sq s)"
proof (cases "grad_of w p")
  case None
  with assms show ?thesis by (simp add: visit_param_def split: option.splits)
next
  case (Some g)
  show ?thesis
  proof (cases "is_sparse g")
    case True
    with Some assms show ?thesis by (simp add: visit_param_def split: option.splits)
  next
    case False
    show ?thesis
    proof (cases "state w p")
      case None
      with Some False assms show ?thesis
        by (cases "x = p")
           (auto simp: visit_param_def init_state_def new_state_def Let_def
              split: option.splits if_splits)
    next
      case (Some s)
      with \<open>grad_of w p = Some g\<close> False assms show ?thesis
        by (cases "x = p")
           (auto simp: visit_param_def Let_def split: option.splits if_splits)
    qed
  qed
qed

lemma visit_keys_present:
  assumes "keys_present grp ps w"
  shows "keys_present grp ps (world_of (visit_param grp fi p c w))"
  unfolding keys_present_def
proof (intro ballI allI impI)
  fix x s'
  assume x: "x \<in> set ps"
    and h: "g_amsgrad grp \<and> state (world_of (visit_param grp fi p c w)) x = Some s'"
  from visit_has_max[of grp fi p c w x s'] h
  have cs: "(case state w x of None \<Rightarrow> x = p \<and> has_max_exp_avg_sq s' = g_amsgrad grp
          | Some s \<Rightarrow> has_max_exp_avg_sq s' = has_max_exp_avg_sq s)" by simp
  show "has_max_exp_avg_sq s'"
  proof (cases "state w x")
    case None
    with cs h show ?thesis by simp
  next
    case (Some s)
    with cs have "has_max_exp_avg_sq s' = has_max_exp_avg_sq s" by simp
    moreover have "has_max_exp_avg_sq s" using assms x h Some by (simp add: keys_present_def)
    ultimately show ?thesis by simp
  qed
qed

lemma visit_returns:
  assumes "\<And>s. g_amsgrad grp \<Longrightarrow> state w p = Some s \<Longrightarrow> has_max_exp_avg_sq s"
    and "\<And>g. grad_of w p = Some g \<Longrightarrow> \<not> is_sparse g"
  shows "raised (visit_param grp fi p c w) = None"
proof (cases "grad_of w p")
  case None
  then show ?thesis by (simp add: visit_param_def)
next
  case (Some g)
  then have dense: "\<not> is_sparse g" by (rule assms(2))
  show ?thesis
  proof (cases "state w p")
    case None
    with Some dense show ?thesis
      by (simp add: visit_param_def init_state_def new_state_def Let_def)
  next
    case (Some s)
    then have "g_amsgrad grp \<longrightarrow> has_max_exp_avg_sq s"
      using assms(1) by simp
    with Some \<open>grad_of w p = Some g\<close> dense show ?thesis
      by (simp add: visit_param_def Let_def)
  qed
qed

lemma keys_present_ConsD:
  assumes "keys_present grp (p # ps) w"
  shows "keys_present grp ps w"
    and "\<And>s. g_amsgrad grp \<Longrightarrow> state w p = Some s \<Longrightarrow> has_max_exp_avg_sq s"
  using assms unfolding keys_present_def by auto

lemma all_dense_ConsD:
  assumes "all_dense (p # ps) w"
  shows "all_dense ps w" and "\<And>g. grad_of w p = Some g \<Longrightarrow> \<not> is_sparse g"
  using assms unfolding all_dense_def by auto

lemma all_dense_grad: "grad_of v = grad_of w \<Longrightarrow> all_dense ps v = all_dense ps w"
  unfolding all_dense_def by simp

lemma visit_loop_returns:
  assumes "keys_present grp ps w" "all_dense ps w"
  shows "raised (for_each (visit_param grp fi) ps c w) = None"
  using assms
proof (induction ps arbitrary: c w)
  case Nil
  then show ?case by simp
next
  case (Cons p ps)
  note kp = keys_present_ConsD[OF Cons.prems(1)]
  note dp = all_dense_ConsD[OF Cons.prems(2)]
  have r: "raised (visit_param grp fi p c w) = None" using kp(2) dp(2) by (rule visit_returns)
  then obtain c1 w1 where v: "visit_param grp fi p c w = Return c1 w1"
    by (cases "visit_param grp fi p c w") simp_all
  have w1: "w1 = world_of (visit_param grp fi p c w)" using v by simp
  have k1: "keys_present grp ps w1"
    unfolding w1 using kp(1) by (rule visit_keys_present)
  have "grad_of w1 = grad_of w" unfolding w1 by (rule visit_frame)
  from all_dense_grad[OF this, of ps] have d1: "all_dense ps w1" using dp(1) by simp
  have "raised (for_each (visit_param grp fi) ps c1 w1) = None"
    using k1 d1 by (rule Cons.IH)
  then show ?case using v by simp
qed

lemma visit_sparse:
  assumes "grad_of w q = Some g" "is_sparse g"
  shows "visit_param grp fi q c w
     = Raise (RuntimeError ''Adam does not support sparse gradients, please consider SparseAdam instead'') w"
  using assms by (simp add: visit_param_def)

lemma visit_loop_param:
  "heap (world_of (for_each (visit_param grp fi) ps c w)) (Param p) = heap w (Param p)"
  by (rule for_each_world) (simp add: visit_frame)

lemma visit_loop_moments:
  "exp_avg_of (world_of (for_each (visit_param grp fi) ps c w)) p = exp_avg_of w p"
  "exp_avg_sq_of (world_of (for_each (visit_param grp fi) ps c w)) p = exp_avg_sq_of w p"
  by (rule for_each_world, simp add: visit_moments)+

lemma step_group_sparse:
  assumes split: "g_params grp = ps1 @ q # ps2"
    and sparse: "grad_of w q = Some g" "is_sparse g"
    and dense: "all_dense ps1 w" and keys: "keys_present grp ps1 w"
  shows "\<exists>c1. for_each (visit_param grp fi) ps1 no_lists w
              = Return c1 (world_of (step_group fi grp u w))"
    and "raised (step_group fi grp u w)
       = Some (RuntimeError ''Adam does not support sparse gradients, please consider SparseAdam instead'')"
proof -
  have "raised (for_each (visit_param grp fi) ps1 no_lists w) = None"
    using keys dense by (rule visit_loop_returns)
  then obtain c1 w1 where L1: "for_each (visit_param grp fi) ps1 no_lists w = Return c1 w1"
    by (cases "for_each (visit_param grp fi) ps1 no_lists w") simp_all
  have "grad_of w1 = grad_of w"
    using visit_loop_frame(1)[of grp fi ps1 no_lists w] L1 by simp
  then have "grad_of w1 q = Some g" using sparse(1) by simp
  then have V: "visit_param grp fi q c1 w1
     = Raise (RuntimeError ''Adam does not support sparse gradients, please consider SparseAdam instead'') w1"
    using sparse(2) by (rule visit_sparse)
  have all: "for_each (visit_param grp fi) (g_params grp) no_lists w
     = Raise (RuntimeError ''Adam does not support sparse gradients, please consider SparseAdam instead'') w1"
    unfolding split using L1 V by (simp add: for_each_append)
  then have sg: "step_group fi grp u w
     = Raise (RuntimeError ''Adam does not support sparse gradients, please consider SparseAdam instead'') w1"
    by (simp add: step_group_def)
  show "\<exists>c1. for_each (visit_param grp fi) ps1 no_lists w
              = Return c1 (world_of (step_group fi grp u w))"
    using L1 sg by simp
  show "raised (step_group fi grp u w)
       = Some (RuntimeError ''Adam does not support sparse gradients, please consider SparseAdam instead'')"
    using sg by simp
qed

text \<open>
  C5. When the loop over a group meets a sparse gradient, \<open>step\<close> raises the RuntimeError
  of line 86. In the store it leaves, compared with the store \<open>w1\<close> in which the group
  was entered, no parameter value and no moment of any parameter has changed, and
  nothing that belongs to a parameter not visited before the sparse one has changed. The
  parameters with a gradient visited before it (\<open>ps1\<close>) have kept their changes: their
  state exists, and their step count has gone up by one for each visit unless the skip
  signal is set.
\<close>

theorem sparse_gradient_raises:
  assumes "shape fi = []"
    and "param_groups w = gs1 @ grp # gs2"
    and "for_each (step_group fi) gs1 () w = Return u1 w1"
    and "g_params grp = ps1 @ q # ps2"
    and "grad_of w q = Some g" and "is_sparse g"
    and "all_dense ps1 w" and "keys_present grp ps1 w1"
    and "w' = world_of (Adam_step None (Some fi) w)"
  shows "raised (Adam_step None (Some fi) w)
       = Some (RuntimeError ''Adam does not support sparse gradients, please consider SparseAdam instead'')
     \<and> (\<forall>p. heap w' (Param p) = heap w1 (Param p)
            \<and> exp_avg_of w' p = exp_avg_of w1 p
            \<and> exp_avg_sq_of w' p = exp_avg_sq_of w1 p
            \<and> step_of w' p = step_of w1 p +
                 (if tensor_bool fi then 0
                  else count_list (filter (\<lambda>x. grad_of w x \<noteq> None) ps1) p)
            \<and> (p \<notin> set ps1 \<or> grad_of w p = None \<longrightarrow> own p w' = own p w1)
            \<and> (p \<in> set ps1 \<and> grad_of w p \<noteq> None \<longrightarrow> state w' p \<noteq> None))"
proof -
  have g1: "grad_of w1 = grad_of w"
    using step_groups_frame(1)[of fi gs1 "()" w] assms(3) by simp
  have sp: "grad_of w1 q = Some g" using assms(5) g1 by simp
  have d1: "all_dense ps1 w1" using all_dense_grad[OF g1, of ps1] assms(7) by simp
  note sg = step_group_sparse[OF assms(4) sp assms(6) d1 assms(8), of fi u1]
  from sg(2) obtain e w2 where r2: "step_group fi grp u1 w1 = Raise e w2"
    and e: "e = RuntimeError ''Adam does not support sparse gradients, please consider SparseAdam instead''"
    by (cases "step_group fi grp u1 w1") simp_all
  from sg(1) r2 obtain c1 where L1: "for_each (visit_param grp fi) ps1 no_lists w1 = Return c1 w2"
    by auto
  have loop: "for_each (step_group fi) (param_groups w) () w = Raise e w2"
    unfolding assms(2) using assms(3) r2 by (simp add: for_each_append)
  have step: "Adam_step None (Some fi) w = Raise e w2"
    using assms(1) loop by (simp add: Adam_step_def run_closure_def)
  have w': "w' = w2" using assms(9) step by simp
  have w2: "w2 = world_of (for_each (visit_param grp fi) ps1 no_lists w1)" using L1 by simp
  have facts: "heap w2 (Param p) = heap w1 (Param p)" "exp_avg_of w2 p = exp_avg_of w1 p"
    "exp_avg_sq_of w2 p = exp_avg_sq_of w1 p"
    "step_of w2 p = step_of w1 p +
        (if tensor_bool fi then 0 else count_list (filter (\<lambda>x. grad_of w x \<noteq> None) ps1) p)"
    "p \<notin> set ps1 \<or> grad_of w p = None \<longrightarrow> own p w2 = own p w1"
    "p \<in> set ps1 \<and> grad_of w p \<noteq> None \<longrightarrow> state w2 p \<noteq> None" for p
  proof -
    show "heap w2 (Param p) = heap w1 (Param p)" unfolding w2 by (rule visit_loop_param)
    show "exp_avg_of w2 p = exp_avg_of w1 p" unfolding w2 by (rule visit_loop_moments)
    show "exp_avg_sq_of w2 p = exp_avg_sq_of w1 p" unfolding w2 by (rule visit_loop_moments)
    show "step_of w2 p = step_of w1 p +
        (if tensor_bool fi then 0 else count_list (filter (\<lambda>x. grad_of w x \<noteq> None) ps1) p)"
      using visit_loop_step_of[OF L1, of p] by (simp add: g1)
    show "p \<notin> set ps1 \<or> grad_of w p = None \<longrightarrow> own p w2 = own p w1"
      using visit_loop_own[of p ps1 w1 grp fi no_lists] unfolding w2 by (simp add: g1)
    show "p \<in> set ps1 \<and> grad_of w p \<noteq> None \<longrightarrow> state w2 p \<noteq> None"
      using visit_loop_lists[OF no_lists_for L1] by (simp add: g1)
  qed
  show ?thesis
    unfolding w' using step e facts by simp
qed

theorem sparse_gradient_raises_witness:
  "shape (scalar 0) = []
   \<and> grad_of sparse_scenario 1 = Some \<lparr>shape = [1], is_sparse = True, elems = [1 / 10]\<rparr>
   \<and> raised (Adam_step None (Some (scalar 0)) sparse_scenario)
       = Some (RuntimeError ''Adam does not support sparse gradients, please consider SparseAdam instead'')
   \<and> heap (world_of (Adam_step None (Some (scalar 0)) sparse_scenario)) (Param 0)
       = heap sparse_scenario (Param 0)
   \<and> step_of (world_of (Adam_step None (Some (scalar 0)) sparse_scenario)) 0
       = step_of sparse_scenario 0 + 1
   \<and> state (world_of (Adam_step None (Some (scalar 0)) sparse_scenario)) 0 \<noteq> None
   \<and> own 1 (world_of (Adam_step None (Some (scalar 0)) sparse_scenario)) = own 1 sparse_scenario"
proof -
  let ?grp = "\<lparr>g_params = [0, 1], g_lr = 1 / 1000, g_betas = (9 / 10, 999 / 1000),
               g_eps = 1 / 100000000, g_weight_decay = 0, g_amsgrad = False\<rparr>"
  let ?g = "\<lparr>shape = [1], is_sparse = True, elems = [1 / 10]\<rparr>"
  have h1: "shape (scalar 0) = []" by (simp add: scalar_def)
  have h2: "param_groups sparse_scenario = [] @ ?grp # []" by (simp add: sparse_scenario_def)
  have h3: "for_each (step_group (scalar 0)) [] () sparse_scenario = Return () sparse_scenario"
    by simp
  have h4: "g_params ?grp = [0] @ 1 # []" by simp
  have h5: "grad_of sparse_scenario 1 = Some ?g" by (simp add: sparse_scenario_def)
  have h6: "is_sparse ?g" by simp
  have h7: "all_dense [0] sparse_scenario"
    by (simp add: all_dense_def sparse_scenario_def vec_def)
  have h8: "keys_present ?grp [0] sparse_scenario"
    by (simp add: keys_present_def)
  have nt: "\<not> tensor_bool (scalar 0)" by (simp add: tensor_bool_def scalar_def)
  have g0: "grad_of sparse_scenario 0 \<noteq> None" by (simp add: sparse_scenario_def)
  from sparse_gradient_raises[OF h1 h2 h3 h4 h5 h6 h7 h8 refl]
  have r: "raised (Adam_step None (Some (scalar 0)) sparse_scenario)
       = Some (RuntimeError ''Adam does not support sparse gradients, please consider SparseAdam instead'')"
    and all: "\<And>p. heap (world_of (Adam_step None (Some (scalar 0)) sparse_scenario)) (Param p)
              = heap sparse_scenario (Param p)
            \<and> step_of (world_of (Adam_step None (Some (scalar 0)) sparse_scenario)) p
              = step_of sparse_scenario p +
                 (if tensor_bool (scalar 0) then 0
                  else count_list (filter (\<lambda>x. grad_of sparse_scenario x \<noteq> None) [0]) p)
            \<and> (p \<notin> set [0] \<or> grad_of sparse_scenario p = None \<longrightarrow>
                 own p (world_of (Adam_step None (Some (scalar 0)) sparse_scenario))
                   = own p sparse_scenario)
            \<and> (p \<in> set [0] \<and> grad_of sparse_scenario p \<noteq> None \<longrightarrow>
                 state (world_of (Adam_step None (Some (scalar 0)) sparse_scenario)) p \<noteq> None)"
    by simp_all
  show ?thesis
    using h1 h5 r all[of 0] all[of 1] nt g0 by simp
qed

theorem sparse_gradient_after_state_change:
  "raised (Adam_step None (Some (scalar 0)) sparse_scenario)
       = Some (RuntimeError ''Adam does not support sparse gradients, please consider SparseAdam instead'')
   \<and> state sparse_scenario 0 = None
   \<and> step_of sparse_scenario 0 = 0
   \<and> state (world_of (Adam_step None (Some (scalar 0)) sparse_scenario)) 0
       = Some \<lparr>step_count = 1, has_max_exp_avg_sq = False\<rparr>
   \<and> step_of (world_of (Adam_step None (Some (scalar 0)) sparse_scenario)) 0 = 1"
  by (simp add: step_defs sparse_scenario_def step_of_def)

subsection \<open>The side effects of a step\<close>








section \<open>Properties of the benchmark driver\<close>

lemma token_take:
  assumes "\<forall>x\<in>set t. \<not> isspace x" "isspace c"
  shows "takeWhile (\<lambda>x. \<not> isspace x) (t @ c # r) = t"
    and "dropWhile (\<lambda>x. \<not> isspace x) (t @ c # r) = c # r"
  using assms by (induction t) auto

lemma eat_token_ok:
  assumes "t \<noteq> []" "\<forall>x\<in>set t. \<not> isspace x" "isspace c"
  shows "eat_token c (t @ c # r) = Some (t, r)"
  using assms by (simp add: eat_token_def token_take Let_def)

lemma isspace_sep: "isspace 32" "isspace 10"
  by (simp_all add: isspace_def)

lemma length_prefix: "length (lit ''Results: '') = 9"
  by (simp add: lit_def)

lemma match_here_ok:
  assumes "t1 \<noteq> []" "t2 \<noteq> []" "t3 \<noteq> []" "t4 \<noteq> []" "t5 \<noteq> []"
    and "\<forall>x\<in>set t1. \<not> isspace x" "\<forall>x\<in>set t2. \<not> isspace x" "\<forall>x\<in>set t3. \<not> isspace x"
      "\<forall>x\<in>set t4. \<not> isspace x" "\<forall>x\<in>set t5. \<not> isspace x"
  shows "match_here (lit ''Results: '' @ t1 @ 32 # t2 @ 32 # t3 @ 32 # t4 @ 32 # t5 @ 10 # post)
       = Some (lit ''Results: '' @ t1 @ [32] @ t2 @ [32] @ t3 @ [32] @ t4 @ [32] @ t5 @ [10])"
proof -
  have e1: "eat_token 32 (t1 @ 32 # t2 @ 32 # t3 @ 32 # t4 @ 32 # t5 @ 10 # post)
      = Some (t1, t2 @ 32 # t3 @ 32 # t4 @ 32 # t5 @ 10 # post)"
    using assms(1,6) isspace_sep(1) by (rule eat_token_ok)
  have e2: "eat_token 32 (t2 @ 32 # t3 @ 32 # t4 @ 32 # t5 @ 10 # post)
      = Some (t2, t3 @ 32 # t4 @ 32 # t5 @ 10 # post)"
    using assms(2,7) isspace_sep(1) by (rule eat_token_ok)
  have e3: "eat_token 32 (t3 @ 32 # t4 @ 32 # t5 @ 10 # post) = Some (t3, t4 @ 32 # t5 @ 10 # post)"
    using assms(3,8) isspace_sep(1) by (rule eat_token_ok)
  have e4: "eat_token 32 (t4 @ 32 # t5 @ 10 # post) = Some (t4, t5 @ 10 # post)"
    using assms(4,9) isspace_sep(1) by (rule eat_token_ok)
  have e5: "eat_token 10 (t5 @ 10 # post) = Some (t5, post)"
    using assms(5,10) isspace_sep(2) by (rule eat_token_ok)
  show ?thesis
    unfolding match_here_def
    by (simp add: length_prefix e1 e2 e3 e4 e5)
qed

lemma re_search_hit: "match_here s = Some m \<Longrightarrow> re_search s = Some m"
  by (cases s) simp_all

lemma re_search_skip:
  assumes "\<forall>i<length pre. match_here (drop i (pre @ s)) = None"
  shows "re_search (pre @ s) = re_search s"
  using assms
proof (induction pre)
  case Nil
  then show ?case by simp
next
  case (Cons a pre)
  have "match_here (drop 0 ((a # pre) @ s)) = None"
    using Cons.prems by blast
  then have here: "match_here (a # pre @ s) = None" by simp
  have "\<forall>i<length pre. match_here (drop i (pre @ s)) = None"
  proof (intro allI impI)
    fix i assume "i < length pre"
    then have "match_here (drop (Suc i) ((a # pre) @ s)) = None"
      using Cons.prems by auto
    then show "match_here (drop i (pre @ s)) = None" by simp
  qed
  then have "re_search (pre @ s) = re_search s" by (rule Cons.IH)
  with here show ?case by simp
qed

lemma re_search_None:
  "re_search s = None \<longleftrightarrow> (\<forall>i\<le>length s. match_here (drop i s) = None)"
proof (induction s)
  case Nil
  then show ?case by simp
next
  case (Cons a s)
  have "(\<forall>i\<le>length (a # s). match_here (drop i (a # s)) = None)
      \<longleftrightarrow> match_here (a # s) = None \<and> (\<forall>i\<le>length s. match_here (drop i s) = None)"
  proof
    assume h: "\<forall>i\<le>length (a # s). match_here (drop i (a # s)) = None"
    have "match_here (drop 0 (a # s)) = None" using h by blast
    moreover have "match_here (drop i s) = None" if "i \<le> length s" for i
    proof -
      have "match_here (drop (Suc i) (a # s)) = None" using h that by auto
      then show ?thesis by simp
    qed
    ultimately show "match_here (a # s) = None \<and> (\<forall>i\<le>length s. match_here (drop i s) = None)"
      by simp
  next
    assume h: "match_here (a # s) = None \<and> (\<forall>i\<le>length s. match_here (drop i s) = None)"
    show "\<forall>i\<le>length (a # s). match_here (drop i (a # s)) = None"
    proof (intro allI impI)
      fix i assume "i \<le> length (a # s)"
      then show "match_here (drop i (a # s)) = None"
        using h by (cases i) simp_all
    qed
  qed
  then show ?case using Cons.IH by (simp split: option.splits)
qed

lemma split_on_not_Nil: "split_on c xs \<noteq> []"
  by (induction xs) simp_all

lemma split_on_absent: "c \<notin> set ys \<Longrightarrow> split_on c ys = [ys]"
  by (induction ys) simp_all

lemma split_on_two: "tl (split_on c (xs @ c # ys)) \<noteq> []"
  by (induction xs) (simp_all add: split_on_not_Nil)

lemma last_split_on: "last (split_on c (xs @ c # ys)) = last (split_on c ys)"
proof (induction xs)
  case Nil
  then show ?case by (simp add: split_on_not_Nil)
next
  case (Cons x xs)
  let ?S = "split_on c (xs @ c # ys)"
  have "?S \<noteq> []" by (rule split_on_not_Nil)
  moreover have "tl ?S \<noteq> []" by (rule split_on_two)
  ultimately have "last (tl ?S) = last ?S" by (cases ?S) simp_all
  then show ?case using Cons.IH \<open>tl ?S \<noteq> []\<close> \<open>?S \<noteq> []\<close> by simp
qed

lemma strip_token:
  assumes "t \<noteq> []" "\<forall>x\<in>set t. \<not> isspace x"
  shows "strip (t @ [10]) = t"
proof -
  obtain a t' where t: "t = a # t'" using assms(1) by (cases t) simp_all
  then have "\<not> isspace a" using assms(2) by simp
  then have front: "dropWhile isspace (t @ [10]) = t @ [10]" using t by simp
  have "rev t \<noteq> []" using assms(1) by simp
  then obtain b r where r: "rev t = b # r" by (cases "rev t") simp_all
  then have "b \<in> set t" by (metis list.set_intros(1) set_rev)
  then have "\<not> isspace b" using assms(2) by simp
  then have "dropWhile isspace (rev (t @ [10])) = rev t"
    using r isspace_sep(2) by simp
  then show ?thesis by (simp add: strip_def front)
qed

lemma eat_token_Some:
  assumes "eat_token c s = Some (t, r)"
  shows "t \<noteq> []" "list_all (\<lambda>x. \<not> isspace x) t" "s = t @ c # r"
proof -
  let ?t = "takeWhile (\<lambda>x. \<not> isspace x) s"
  let ?r = "dropWhile (\<lambda>x. \<not> isspace x) s"
  have c: "?t \<noteq> [] \<and> ?r \<noteq> [] \<and> hd ?r = c" and t: "t = ?t" and r: "r = tl ?r"
    using assms by (auto simp: eat_token_def Let_def split: if_splits)
  show "t \<noteq> []" using c t by simp
  show "list_all (\<lambda>x. \<not> isspace x) t"
    unfolding t list_all_iff by (auto dest: set_takeWhileD)
  have "?r = c # r" using c r by (cases ?r) simp_all
  moreover have "s = ?t @ ?r" by simp
  ultimately show "s = t @ c # r" using t by metis
qed

lemma match_here_line:
  assumes "token t1" "token t2" "token t3" "token t4" "token t5"
  shows "match_here (results_line t1 t2 t3 t4 t5 @ post) = Some (results_line t1 t2 t3 t4 t5)"
  using match_here_ok[of t1 t2 t3 t4 t5 post] assms
  by (simp add: token_def results_line_def list_all_iff)

lemma match_here_Some:
  assumes "match_here s = Some m"
  shows "\<exists>t1 t2 t3 t4 t5 post. token t1 \<and> token t2 \<and> token t3 \<and> token t4 \<and> token t5
            \<and> m = results_line t1 t2 t3 t4 t5 \<and> s = m @ post"
proof -
  have p: "take 9 s = lit ''Results: ''"
    using assms by (auto simp: match_here_def split: if_splits)
  obtain t1 s1 where e1: "eat_token 32 (drop 9 s) = Some (t1, s1)"
    using assms p by (auto simp: match_here_def split: option.splits)
  obtain t2 s2 where e2: "eat_token 32 s1 = Some (t2, s2)"
    using assms p e1 by (auto simp: match_here_def split: option.splits)
  obtain t3 s3 where e3: "eat_token 32 s2 = Some (t3, s3)"
    using assms p e1 e2 by (auto simp: match_here_def split: option.splits)
  obtain t4 s4 where e4: "eat_token 32 s3 = Some (t4, s4)"
    using assms p e1 e2 e3 by (auto simp: match_here_def split: option.splits)
  obtain t5 s5 where e5: "eat_token 10 s4 = Some (t5, s5)"
    using assms p e1 e2 e3 e4 by (auto simp: match_here_def split: option.splits)
  have m: "m = results_line t1 t2 t3 t4 t5"
    using assms p e1 e2 e3 e4 e5 by (simp add: match_here_def results_line_def)
  have "s = take 9 s @ drop 9 s" by simp
  also have "\<dots> = lit ''Results: '' @ t1 @ 32 # s1"
    using p eat_token_Some(3)[OF e1] by simp
  also have "s1 = t2 @ 32 # s2" by (rule eat_token_Some(3)[OF e2])
  also have "s2 = t3 @ 32 # s3" by (rule eat_token_Some(3)[OF e3])
  also have "s3 = t4 @ 32 # s4" by (rule eat_token_Some(3)[OF e4])
  also have "s4 = t5 @ 10 # s5" by (rule eat_token_Some(3)[OF e5])
  finally have "s = m @ s5" by (simp add: m results_line_def)
  moreover have "token t1" "token t2" "token t3" "token t4" "token t5"
    using eat_token_Some(1,2)[OF e1] eat_token_Some(1,2)[OF e2] eat_token_Some(1,2)[OF e3]
      eat_token_Some(1,2)[OF e4] eat_token_Some(1,2)[OF e5]
    by (simp_all add: token_def)
  ultimately show ?thesis using m by blast
qed

lemma latency_of_match:
  assumes "token t5" "re_search out = Some (results_line t1 t2 t3 t4 t5)"
  shows "latency_of out = t5"
proof -
  have ns: "\<forall>x\<in>set t5. \<not> isspace x" and ne: "t5 \<noteq> []"
    using assms(1) by (simp_all add: token_def list_all_iff)
  have "32 \<notin> set (t5 @ [10])" using ns isspace_sep(1) by auto
  then have one: "split_on 32 (t5 @ [10]) = [t5 @ [10]]" by (rule split_on_absent)
  have "results_line t1 t2 t3 t4 t5
      = (lit ''Results: '' @ t1 @ [32] @ t2 @ [32] @ t3 @ [32] @ t4) @ 32 # (t5 @ [10])"
    by (simp add: results_line_def)
  then have "last (split_on 32 (results_line t1 t2 t3 t4 t5)) = last (split_on 32 (t5 @ [10]))"
    by (simp only: last_split_on)
  then have "last (split_on 32 (results_line t1 t2 t3 t4 t5)) = t5 @ [10]"
    using one by simp
  then show ?thesis
    using assms(2) strip_token[OF ne ns] by (simp add: latency_of_def)
qed

lemma sweep_rows:
  "sweep run models sequence_lengths batch_sizes =
     map (\<lambda>(model, seq_len, batch_size).
            (model, seq_len, batch_size, latency_of (run model batch_size seq_len True),
             latency_of (run model batch_size seq_len False)))
         (List.product models (List.product sequence_lengths batch_sizes))"
  by (simp add: sweep_def aggregate_def List.product_concat_map map_concat comp_def)

text \<open>
  C9. The latency reported for a captured output. When the pattern matches nowhere in the
  output, it is \<open>N/A\<close>. When the output holds a line of the pattern (\<open>Results:\<close> and
  five tokens separated by single spaces, ended by a newline) and the pattern matches
  at no earlier position, it is the last token of that line, without the newline. The
  pattern matches at the start of a text exactly when the text starts with such a line.
  Taking the last piece of the split never fails, and the sweep gives one row for every
  combination of model, sequence length and batch size, with \<open>N/A\<close> where a run's
  output has no match.
\<close>

theorem latency_of_results_line:
  "((\<forall>i\<le>length out. match_here (drop i out) = None) \<longrightarrow> latency_of out = lit ''N/A'')
   \<and> (token t1 \<and> token t2 \<and> token t3 \<and> token t4 \<and> token t5
        \<and> (\<forall>i<length pre. match_here (drop i (pre @ results_line t1 t2 t3 t4 t5 @ post)) = None)
      \<longrightarrow> latency_of (pre @ results_line t1 t2 t3 t4 t5 @ post) = t5)
   \<and> (match_here s = Some m \<longleftrightarrow>
        (\<exists>u1 u2 u3 u4 u5 rest. token u1 \<and> token u2 \<and> token u3 \<and> token u4 \<and> token u5
           \<and> m = results_line u1 u2 u3 u4 u5 \<and> s = m @ rest))
   \<and> split_on 32 m \<noteq> []
   \<and> sweep run models sequence_lengths batch_sizes =
       map (\<lambda>(model, seq_len, batch_size).
              (model, seq_len, batch_size, latency_of (run model batch_size seq_len True),
               latency_of (run model batch_size seq_len False)))
           (List.product models (List.product sequence_lengths batch_sizes))"
proof (intro conjI impI)
  assume "\<forall>i\<le>length out. match_here (drop i out) = None"
  then have "re_search out = None" by (simp only: re_search_None)
  then show "latency_of out = lit ''N/A''" by (simp add: latency_of_def)
next
  let ?line = "results_line t1 t2 t3 t4 t5"
  assume h: "token t1 \<and> token t2 \<and> token t3 \<and> token t4 \<and> token t5
        \<and> (\<forall>i<length pre. match_here (drop i (pre @ ?line @ post)) = None)"
  then have "re_search (pre @ ?line @ post) = re_search (?line @ post)"
    by (intro re_search_skip) simp
  moreover have "match_here (?line @ post) = Some ?line"
    using h by (intro match_here_line) simp_all
  ultimately have "re_search (pre @ ?line @ post) = Some ?line"
    by (simp add: re_search_hit)
  with h show "latency_of (pre @ ?line @ post) = t5"
    by (intro latency_of_match[of t5 _ t1 t2 t3 t4]) simp_all
next
  show "match_here s = Some m \<longleftrightarrow>
        (\<exists>u1 u2 u3 u4 u5 rest. token u1 \<and> token u2 \<and> token u3 \<and> token u4 \<and> token u5
           \<and> m = results_line u1 u2 u3 u4 u5 \<and> s = m @ rest)"
    using match_here_Some[of s m] match_here_line by blast
  show "split_on 32 m \<noteq> []" by (rule split_on_not_Nil)
  show "sweep run models sequence_lengths batch_sizes =
       map (\<lambda>(model, seq_len, batch_size).
              (model, seq_len, batch_size, latency_of (run model batch_size seq_len True),
               latency_of (run model batch_size seq_len False)))
           (List.product models (List.product sequence_lengths batch_sizes))"
    by (rule sweep_rows)
qed

lemma lit_simps:
  "lit [] = []" "lit (c # cs) = of_char c # lit cs"
  by (simp_all add: lit_def)

lemma example_no_match: "re_search (lit ''Traceback: killed'') = None"
  by (simp add: lit_simps match_here_def)

lemma example_tokens:
  "token (lit ''a'')" "token (lit ''b'')" "token (lit ''c'')" "token (lit ''d'')" "token (lit ''12.5'')"
  by (simp_all add: token_def lit_simps isspace_def)

lemma example_prefix:
  "\<forall>i<length (lit ''ok''). match_here (drop i (lit ''ok'' @ s)) = None"
proof (intro allI impI)
  fix i assume "i < length (lit ''ok'')"
  then have "i = 0 \<or> i = 1" by (auto simp: lit_simps)
  then show "match_here (drop i (lit ''ok'' @ s)) = None"
    by (auto simp: lit_simps match_here_def)
qed

theorem latency_of_results_line_witness:
  "re_search (lit ''Traceback: killed'') = None
   \<and> latency_of (lit ''Traceback: killed'') = lit ''N/A''
   \<and> token (lit ''a'') \<and> token (lit ''b'') \<and> token (lit ''c'') \<and> token (lit ''d'')
   \<and> token (lit ''12.5'')
   \<and> latency_of (lit ''ok'' @ results_line (lit ''a'') (lit ''b'') (lit ''c'') (lit ''d'') (lit ''12.5'')
        @ lit ''done'') = lit ''12.5''
   \<and> sweep (\<lambda>model batch_size seq_len tpu.
              if tpu then lit ''Traceback: killed''
              else lit ''ok'' @ results_line (lit ''a'') (lit ''b'') (lit ''c'') (lit ''d'') (lit ''12.5'')
                     @ lit ''done'') [lit ''gpt2''] [128] [1]
       = [(lit ''gpt2'', 128, 1, lit ''N/A'', lit ''12.5'')]"
proof -
  have none: "\<forall>i\<le>length (lit ''Traceback: killed''). match_here (drop i (lit ''Traceback: killed'')) = None"
    using example_no_match by (simp only: re_search_None)
  note t = latency_of_results_line[of "lit ''Traceback: killed''" "lit ''a''" "lit ''b''" "lit ''c''"
      "lit ''d''" "lit ''12.5''" "lit ''ok''" "lit ''done''" "[]" "[]"
      "\<lambda>model batch_size seq_len tpu.
              if tpu then lit ''Traceback: killed''
              else lit ''ok'' @ results_line (lit ''a'') (lit ''b'') (lit ''c'') (lit ''d'') (lit ''12.5'')
                     @ lit ''done''" "[lit ''gpt2'']" "[128]" "[1]"]
  have a: "latency_of (lit ''Traceback: killed'') = lit ''N/A''"
    using t none by blast
  have b: "latency_of (lit ''ok'' @ results_line (lit ''a'') (lit ''b'') (lit ''c'') (lit ''d'') (lit ''12.5'')
        @ lit ''done'') = lit ''12.5''"
    using t example_tokens example_prefix by blast
  show ?thesis
    using t a b example_no_match example_tokens by simp
qed

end
